theory Spec2Isabelle
  imports Complex_Main "HOL-Library.Word"
begin

section \<open>EcoSort backend: the model\<close>

text \<open>
  The definitions follow \<^verbatim>\<open>src/Backend/main.py\<close>. A Python \<^verbatim>\<open>str\<close> is a \<open>string\<close>
  whose characters stand for the code points 0 to 255; a \<^verbatim>\<open>bytes\<close> value is a \<open>string\<close>
  of bytes.
\<close>

subsection \<open>Python floats\<close>

text \<open>
  A finite Python float is modelled by the decimal number that \<^verbatim>\<open>repr\<close> prints for it:
  a sign, a mantissa and the number of digits after the point. \<^verbatim>\<open>repr\<close> is strictly
  monotone and 60.0, 80.0 and 90.0 print as themselves, so comparing these decimals is
  comparing the floats. \<open>float_repr\<close> is the fixed notation, which Python uses when
  the float is zero or has magnitude at least 0.0001 and below 10^16 (\<open>fixed_range\<close>);
  every float the code formats is in that range. Infinities and NaN are not modelled.
\<close>

datatype pyfloat = PyFloat (neg: bool) (mant: nat) (scale: nat)

definition fval :: "pyfloat \<Rightarrow> real" where
  "fval f = (if neg f then - 1 else 1) * (real (mant f) / 10 ^ scale f)"

definition canonical :: "pyfloat \<Rightarrow> bool" where
  "canonical f \<longleftrightarrow> scale f = 0 \<or> mant f mod 10 \<noteq> 0"

definition fixed_range :: "pyfloat \<Rightarrow> bool" where
  "fixed_range f \<longleftrightarrow>
     mant f = 0 \<or> (10 ^ scale f \<le> mant f * 10 ^ 4 \<and> mant f < 10 ^ (16 + scale f))"

definition digit_char :: "nat \<Rightarrow> char" where
  "digit_char n = ''0123456789'' ! n"

text \<open>\<^verbatim>\<open>str(n)\<close> for a natural number: its decimal digits.\<close>

fun str_nat :: "nat \<Rightarrow> string" where
  "str_nat n = (if n < 10 then [digit_char n] else str_nat (n div 10) @ [digit_char (n mod 10)])"

declare str_nat.simps [simp del]

text \<open>The last \<open>k\<close> digits of \<open>n\<close>, with leading zeros.\<close>

fun zero_pad :: "nat \<Rightarrow> nat \<Rightarrow> string" where
  "zero_pad 0 n = []"
| "zero_pad (Suc k) n = zero_pad k (n div 10) @ [digit_char (n mod 10)]"

text \<open>\<^verbatim>\<open>repr(x)\<close> of a float, which an f-string and \<^verbatim>\<open>json.dumps\<close> print.\<close>

definition float_repr :: "pyfloat \<Rightarrow> string" where
  "float_repr f =
     (if neg f then ''-'' else []) @ str_nat (mant f div 10 ^ scale f) @ ''.'' @
     (if scale f = 0 then ''0'' else zero_pad (scale f) (mant f mod 10 ^ scale f))"

subsection \<open>Data model\<close>

text \<open>\<^verbatim>\<open>class WasteBinData(BaseModel)\<close>: the validated reading of one bin.\<close>

record WasteBinData =
  bin_id :: string
  organic_level :: pyfloat
  recyclable_level :: pyfloat
  hazardous_level :: pyfloat

text \<open>The \<^verbatim>\<open>Field(...)\<close> constraints that pydantic checks before a handler runs.\<close>

definition valid_reading :: "WasteBinData \<Rightarrow> bool" where
  "valid_reading d \<longleftrightarrow>
     3 \<le> length (bin_id d) \<and> length (bin_id d) \<le> 50 \<and>
     0 \<le> fval (organic_level d) \<and> fval (organic_level d) \<le> 100 \<and>
     0 \<le> fval (recyclable_level d) \<and> fval (recyclable_level d) \<le> 100 \<and>
     0 \<le> fval (hazardous_level d) \<and> fval (hazardous_level d) \<le> 100"

text \<open>
  The dictionary that \<^verbatim>\<open>store_bin_data\<close> writes under a bin identifier;
  \<open>last_updated\<close> is the reading of \<^verbatim>\<open>datetime.now()\<close>, in seconds.
\<close>

record BinRecord =
  rec_bin_id :: string
  rec_organic_level :: pyfloat
  rec_recyclable_level :: pyfloat
  rec_hazardous_level :: pyfloat
  last_updated :: real
  status :: string
  alerts :: "string list"

type_synonym bins = "string \<rightharpoonup> BinRecord"

subsection \<open>\<^verbatim>\<open>WasteDatabase\<close>\<close>

text \<open>\<^verbatim>\<open>_calculate_bin_status\<close>: the band of the largest of the three levels.\<close>

definition calculate_bin_status :: "WasteBinData \<Rightarrow> string" where
  "calculate_bin_status d =
     (let max_level = max (fval (organic_level d))
                          (max (fval (recyclable_level d)) (fval (hazardous_level d)))
      in if max_level \<ge> 90 then ''CRITICAL''
         else if max_level \<ge> 80 then ''HIGH''
         else if max_level \<ge> 60 then ''MEDIUM''
         else ''LOW'')"

text \<open>\<^verbatim>\<open>_generate_alerts\<close>: three independent tests, each appending one message.\<close>

definition generate_alerts :: "WasteBinData \<Rightarrow> string list" where
  "generate_alerts d =
     (let alerts0 = [];
          alerts1 = (if fval (organic_level d) \<ge> 80
                     then alerts0 @ [''Organic waste level critical: ''
                                     @ float_repr (organic_level d) @ ''%'']
                     else alerts0);
          alerts2 = (if fval (recyclable_level d) \<ge> 80
                     then alerts1 @ [''Recyclable waste level critical: ''
                                     @ float_repr (recyclable_level d) @ ''%'']
                     else alerts1);
          alerts3 = (if fval (hazardous_level d) \<ge> 80
                     then alerts2 @ [''Hazardous waste level critical: ''
                                     @ float_repr (hazardous_level d) @ ''%'']
                     else alerts2)
      in alerts3)"

text \<open>
  \<^verbatim>\<open>store_bin_data\<close>: \<open>ts\<close> is the value of \<^verbatim>\<open>datetime.now()\<close>. Nothing in the body can
  raise on a validated reading, so the \<^verbatim>\<open>except\<close> branch is never taken and the call
  returns \<^verbatim>\<open>True\<close> together with the updated dictionary.
\<close>

definition store_bin_data :: "real \<Rightarrow> WasteBinData \<Rightarrow> bins \<Rightarrow> bool \<times> bins" where
  "store_bin_data ts d bs =
     (let timestamp = ts;
          st = calculate_bin_status d;
          al = generate_alerts d
      in (True,
          bs(bin_id d \<mapsto>
            \<lparr>rec_bin_id = bin_id d,
             rec_organic_level = organic_level d,
             rec_recyclable_level = recyclable_level d,
             rec_hazardous_level = hazardous_level d,
             last_updated = timestamp,
             status = st,
             alerts = al\<rparr>)))"

definition get_bin_status :: "string \<Rightarrow> bins \<Rightarrow> BinRecord option" where
  "get_bin_status b bs = bs b"

definition get_all_bins :: "bins \<Rightarrow> bins" where
  "get_all_bins bs = bs"

text \<open>\<^verbatim>\<open>WasteDatabase.__init__\<close>: the empty dictionary.\<close>

definition new_database :: bins where
  "new_database = Map.empty"

text \<open>A run of \<^verbatim>\<open>store_bin_data\<close> calls, each with its own clock reading.\<close>

fun store_all :: "(real \<times> WasteBinData) list \<Rightarrow> bins \<Rightarrow> bins" where
  "store_all [] bs = bs"
| "store_all ((ts, d) # rest) bs = store_all rest (snd (store_bin_data ts d bs))"

subsection \<open>\<^verbatim>\<open>NotificationManager\<close>\<close>

text \<open>
  The four characters in front of each notification, as the UTF-8 bytes the source file
  holds for them.
\<close>

definition alert_mark :: string where
  "alert_mark = [CHR 0xC3, CHR 0xB0, CHR 0xC5, CHR 0xB8, CHR 0xC5, CHR 0xA1, CHR 0xC2, CHR 0xA8]"

definition threshold :: pyfloat where
  "threshold = PyFloat False 80 0"

text \<open>\<^verbatim>\<open>check_and_notify\<close>; printing and logging leave the returned list untouched.\<close>

definition check_and_notify :: "WasteBinData \<Rightarrow> string list" where
  "check_and_notify d =
     (let n0 = [];
          n1 = (if fval (organic_level d) > fval threshold
                then n0 @ [alert_mark @ '' ALERT: Bin '' @ bin_id d @ '' - Organic waste level is ''
                           @ float_repr (organic_level d) @ ''% (exceeds ''
                           @ float_repr threshold @ ''%)'']
                else n0);
          n2 = (if fval (recyclable_level d) > fval threshold
                then n1 @ [alert_mark @ '' ALERT: Bin '' @ bin_id d @ '' - Recyclable waste level is ''
                           @ float_repr (recyclable_level d) @ ''% (exceeds ''
                           @ float_repr threshold @ ''%)'']
                else n1);
          n3 = (if fval (hazardous_level d) > fval threshold
                then n2 @ [alert_mark @ '' CRITICAL ALERT: Bin '' @ bin_id d
                           @ '' - Hazardous waste level is ''
                           @ float_repr (hazardous_level d) @ ''% (exceeds ''
                           @ float_repr threshold @ ''%)'']
                else n2)
      in n3)"

subsection \<open>\<^verbatim>\<open>RateLimiter\<close>\<close>

text \<open>
  \<^verbatim>\<open>time.time()\<close> returns a float, an IEEE 754 double; a clock reading is the real number
  that the double holds. \<^verbatim>\<open>now - req_time\<close> is the float subtraction: the exact difference
  rounded to the nearest double, a tie going to the even significand (\<open>float_round\<close>), and
  an infinity when the rounded value is beyond the largest double. A double has a
  significand of 53 bits and a binary exponent of at least -1022; \<open>binade k a\<close> finds
  the exponent of a positive \<open>a\<close> in at most \<open>k\<close> halvings or doublings, which is enough
  for every exponent that \<open>float_exponent\<close> asks for.
\<close>

definition round_half_even :: "real \<Rightarrow> int" where
  "round_half_even q =
     (let n = \<lfloor>q\<rfloor>; r = q - of_int n
      in if r < 1 / 2 then n else if 1 / 2 < r then n + 1 else if even n then n else n + 1)"

fun binade :: "nat \<Rightarrow> real \<Rightarrow> int" where
  "binade 0 a = 0"
| "binade (Suc k) a =
     (if 2 \<le> a then binade k (a / 2) + 1 else if a < 1 then binade k (a * 2) - 1 else 0)"

definition float_exponent :: "real \<Rightarrow> int" where
  "float_exponent x = max (- 1022) (binade 2100 \<bar>x\<bar>)"

text \<open>The distance between neighbouring doubles at the size of \<open>x\<close>.\<close>

definition float_ulp :: "real \<Rightarrow> real" where
  "float_ulp x = power_int 2 (float_exponent x - 52)"

definition float_round :: "real \<Rightarrow> real" where
  "float_round x = of_int (round_half_even (x / float_ulp x)) * float_ulp x"

text \<open>The result of a float operation: a finite double, or an infinity with its sign.\<close>

datatype float_value = Finite real | Infinity bool

definition float_sub :: "real \<Rightarrow> real \<Rightarrow> float_value" where
  "float_sub a b =
     (let r = float_round (a - b)
      in if 2 ^ 1024 \<le> \<bar>r\<bar> then Infinity (r < 0) else Finite r)"

text \<open>\<^verbatim>\<open>x < n\<close> for a float and an \<^verbatim>\<open>int\<close>, which Python compares exactly.\<close>

definition float_less_int :: "float_value \<Rightarrow> int \<Rightarrow> bool" where
  "float_less_int v n = (case v of Finite r \<Rightarrow> r < of_int n | Infinity negative \<Rightarrow> negative)"

text \<open>
  \<^verbatim>\<open>self.requests\<close> maps an identifier to the list of recorded clock readings;
  \<open>now\<close> is the value of \<^verbatim>\<open>time.time()\<close> read at the start of the call.
\<close>

type_synonym requests = "string \<rightharpoonup> real list"

definition RATE_LIMIT_REQUESTS :: int where
  "RATE_LIMIT_REQUESTS = 100"

definition RATE_LIMIT_WINDOW :: int where
  "RATE_LIMIT_WINDOW = 3600"

definition is_allowed :: "real \<Rightarrow> string \<Rightarrow> int \<Rightarrow> int \<Rightarrow> requests \<Rightarrow> bool \<times> requests" where
  "is_allowed now identifier limit window reqs =
     (let reqs1 = (if identifier \<notin> dom reqs then reqs(identifier \<mapsto> []) else reqs);
          kept = filter (\<lambda>req_time. float_less_int (float_sub now req_time) window)
                   (the (reqs1 identifier));
          reqs2 = reqs1(identifier \<mapsto> kept)
      in if int (length kept) < limit
         then (True, reqs2(identifier \<mapsto> kept @ [now]))
         else (False, reqs2))"

text \<open>\<^verbatim>\<open>RateLimiter.__init__\<close>.\<close>

definition new_limiter :: requests where
  "new_limiter = Map.empty"

text \<open>The timestamps recorded for an identifier (none when it was never seen).\<close>

definition recorded :: "requests \<Rightarrow> string \<Rightarrow> real list" where
  "recorded reqs identifier = (case reqs identifier of None \<Rightarrow> [] | Some ts \<Rightarrow> ts)"

text \<open>Consecutive calls for one identifier, at the clock readings given, in order.\<close>

fun is_allowed_seq :: "real list \<Rightarrow> string \<Rightarrow> int \<Rightarrow> int \<Rightarrow> requests \<Rightarrow> bool list \<times> requests" where
  "is_allowed_seq [] identifier limit window reqs = ([], reqs)"
| "is_allowed_seq (now # later) identifier limit window reqs =
     (let (ok, reqs1) = is_allowed now identifier limit window reqs;
          (oks, reqs2) = is_allowed_seq later identifier limit window reqs1
      in (ok # oks, reqs2))"

subsection \<open>Bytes, UTF-8 and base64\<close>

type_synonym bytes = string

definition byte_val :: "char \<Rightarrow> nat" where
  "byte_val c = of_char c"

definition byte_of :: "nat \<Rightarrow> char" where
  "byte_of n = char_of n"

definition is_ascii :: "char \<Rightarrow> bool" where
  "is_ascii c \<longleftrightarrow> byte_val c < 128"

definition utf8_encode :: "string \<Rightarrow> bytes" where
  "utf8_encode s =
     concat (map (\<lambda>c. if byte_val c < 128 then [c]
                       else [byte_of (192 + byte_val c div 64), byte_of (128 + byte_val c mod 64)]) s)"

fun utf8_decode :: "bytes \<Rightarrow> string option" where
  "utf8_decode [] = Some []"
| "utf8_decode (b # bs) =
     (if byte_val b < 128 then map_option ((#) b) (utf8_decode bs)
      else if byte_val b = 194 \<or> byte_val b = 195 then
        (case bs of
           [] \<Rightarrow> None
         | b2 # bs' \<Rightarrow>
             if 128 \<le> byte_val b2 \<and> byte_val b2 < 192
             then map_option ((#) (byte_of ((byte_val b - 192) * 64 + (byte_val b2 - 128))))
                    (utf8_decode bs')
             else None)
      else None)"

definition b64_char :: "nat \<Rightarrow> char" where
  "b64_char n =
     (if n < 26 then byte_of (65 + n)
      else if n < 52 then byte_of (71 + n)
      else if n < 62 then byte_of (n - 4)
      else if n = 62 then CHR ''-''
      else CHR ''_'')"

fun urlsafe_b64encode :: "bytes \<Rightarrow> bytes" where
  "urlsafe_b64encode [] = []"
| "urlsafe_b64encode [a] =
     [b64_char (byte_val a div 4), b64_char (byte_val a mod 4 * 16), CHR ''='', CHR ''='']"
| "urlsafe_b64encode [a, b] =
     [b64_char (byte_val a div 4), b64_char (byte_val a mod 4 * 16 + byte_val b div 16),
      b64_char (byte_val b mod 16 * 4), CHR ''='']"
| "urlsafe_b64encode (a # b # c # rest) =
     [b64_char (byte_val a div 4), b64_char (byte_val a mod 4 * 16 + byte_val b div 16),
      b64_char (byte_val b mod 16 * 4 + byte_val c div 64), b64_char (byte_val c mod 64)]
     @ urlsafe_b64encode rest"

definition rstrip :: "char \<Rightarrow> string \<Rightarrow> string" where
  "rstrip c s = rev (dropWhile (\<lambda>x. x = c) (rev s))"

definition urlsafe_translate :: "char \<Rightarrow> char" where
  "urlsafe_translate c = (if c = CHR ''-'' then CHR ''+'' else if c = CHR ''_'' then CHR ''/'' else c)"

definition b64_value :: "char \<Rightarrow> nat option" where
  "b64_value c =
     (let n = byte_val c
      in if 65 \<le> n \<and> n \<le> 90 then Some (n - 65)
         else if 97 \<le> n \<and> n \<le> 122 then Some (n - 71)
         else if 48 \<le> n \<and> n \<le> 57 then Some (n + 4)
         else if c = CHR ''+'' then Some 62
         else if c = CHR ''/'' then Some 63
         else None)"

fun a2b_base64 :: "bytes \<Rightarrow> nat \<Rightarrow> nat \<Rightarrow> nat \<Rightarrow> bytes option" where
  "a2b_base64 [] quad_pos leftchar pads = (if quad_pos \<noteq> 0 then None else Some [])"
| "a2b_base64 (c # cs) quad_pos leftchar pads =
     (if c = CHR ''='' then
        (if quad_pos \<ge> 2 \<and> quad_pos + (pads + 1) \<ge> 4 then Some []
         else a2b_base64 cs quad_pos leftchar (if quad_pos \<ge> 2 then pads + 1 else pads))
      else
        (case b64_value c of
           None \<Rightarrow> a2b_base64 cs quad_pos leftchar pads
         | Some v \<Rightarrow>
             if quad_pos = 0 then a2b_base64 cs 1 v 0
             else if quad_pos = 1 then
               map_option ((#) (byte_of (leftchar * 4 + v div 16))) (a2b_base64 cs 2 (v mod 16) 0)
             else if quad_pos = 2 then
               map_option ((#) (byte_of (leftchar * 16 + v div 4))) (a2b_base64 cs 3 (v mod 4) 0)
             else
               map_option ((#) (byte_of (leftchar * 64 + v))) (a2b_base64 cs 0 0 0)))"

definition urlsafe_b64decode :: "string \<Rightarrow> bytes option" where
  "urlsafe_b64decode s =
     (if \<not> list_all is_ascii s then None
      else a2b_base64 (map urlsafe_translate s) 0 0 0)"

fun split_on :: "char \<Rightarrow> string \<Rightarrow> string list" where
  "split_on sep [] = [[]]"
| "split_on sep (c # cs) =
     (if c = sep then [] # split_on sep cs
      else (case split_on sep cs of [] \<Rightarrow> [[c]] | p # ps \<Rightarrow> (c # p) # ps))"


fun b64_body :: "bytes \<Rightarrow> bytes" where
  "b64_body [] = []"
| "b64_body [a] = [b64_char (byte_val a div 4), b64_char (byte_val a mod 4 * 16)]"
| "b64_body [a, b] =
     [b64_char (byte_val a div 4), b64_char (byte_val a mod 4 * 16 + byte_val b div 16),
      b64_char (byte_val b mod 16 * 4)]"
| "b64_body (a # b # c # rest) =
     [b64_char (byte_val a div 4), b64_char (byte_val a mod 4 * 16 + byte_val b div 16),
      b64_char (byte_val b mod 16 * 4 + byte_val c div 64), b64_char (byte_val c mod 64)]
     @ b64_body rest"

subsection \<open>HMAC\<close>

unbundle bit_operations_syntax

text \<open>
  \<^verbatim>\<open>hashlib.sha256\<close> is a parameter of the model: \<open>sha256\<close> stands for the function from a
  byte string to its digest, and nothing is assumed of it beyond what a theorem states
  (\<open>digest32\<close>: every digest has 32 bytes). \<open>hmac_digest\<close> is
  \<^verbatim>\<open>hmac.new(key, msg, hashlib.sha256).digest()\<close>: a key longer than the block size of 64
  is hashed first, the key is padded with zero bytes to the block size, and the digest is
  \<open>sha256 (opad @ sha256 (ipad @ msg))\<close>.
\<close>

definition digest32 :: "(bytes \<Rightarrow> bytes) \<Rightarrow> bool" where
  "digest32 sha256 \<longleftrightarrow> (\<forall>m. length (sha256 m) = 32)"

definition hmac_digest :: "(bytes \<Rightarrow> bytes) \<Rightarrow> bytes \<Rightarrow> bytes \<Rightarrow> bytes" where
  "hmac_digest sha256 key msg =
     (let k0 = (if length key > 64 then sha256 key else key);
          k = k0 @ replicate (64 - length k0) (byte_of 0);
          ipad = map (\<lambda>c. byte_of (unat ((word_of_nat (byte_val c) :: 8 word) XOR 0x36))) k;
          opad = map (\<lambda>c. byte_of (unat ((word_of_nat (byte_val c) :: 8 word) XOR 0x5c))) k
      in sha256 (opad @ sha256 (ipad @ msg)))"

subsection \<open>JSON\<close>

datatype pyval =
    PNone
  | PBool bool
  | PInt int
  | PFloat pyfloat
  | PNaN
  | PInfinity bool
  | PStr string
  | PList "pyval list"
  | PTuple "pyval list"
  | PDict "(string \<times> pyval) list"
  | PObject string

definition str_int :: "int \<Rightarrow> string" where
  "str_int i = (if i < 0 then ''-'' @ str_nat (nat (- i)) else str_nat (nat i))"

text \<open>
  \<^verbatim>\<open>repr\<close> of a float outside the fixed range: the digits without trailing zeros, a point
  after the first when there are more, and the decimal exponent with its sign and at
  least two digits, as in \<^verbatim>\<open>1e+16\<close> and \<^verbatim>\<open>1.5e-05\<close>.
\<close>

definition float_repr_exp :: "pyfloat \<Rightarrow> string" where
  "float_repr_exp f =
     (let all_digits = str_nat (mant f);
          digits = rev (dropWhile (\<lambda>c. c = CHR ''0'') (rev all_digits));
          ex = int (length all_digits) - int (scale f) - 1
      in (if neg f then ''-'' else []) @ take 1 digits @
         (if length digits \<le> 1 then [] else ''.'' @ drop 1 digits) @ ''e'' @
         (if ex < 0 then ''-'' else ''+'') @
         (if \<bar>ex\<bar> < 10 then ''0'' else []) @ str_nat (nat \<bar>ex\<bar>))"

definition float_str :: "pyfloat \<Rightarrow> string" where
  "float_str f = (if fixed_range f then float_repr f else float_repr_exp f)"

definition hex_char :: "nat \<Rightarrow> char" where
  "hex_char n = ''0123456789abcdef'' ! n"

definition json_escape_char :: "char \<Rightarrow> string" where
  "json_escape_char c =
     (if c = CHR ''\"'' then [CHR 0x5C, CHR ''\"'']
      else if c = CHR 0x5C then [CHR 0x5C, CHR 0x5C]
      else if c = CHR 0x0A then [CHR 0x5C, CHR ''n'']
      else if c = CHR 0x0D then [CHR 0x5C, CHR ''r'']
      else if c = CHR 0x09 then [CHR 0x5C, CHR ''t'']
      else if c = CHR 0x08 then [CHR 0x5C, CHR ''b'']
      else if c = CHR 0x0C then [CHR 0x5C, CHR ''f'']
      else if 32 \<le> byte_val c \<and> byte_val c \<le> 126 then [c]
      else [CHR 0x5C, CHR ''u'', CHR ''0'', CHR ''0'',
            hex_char (byte_val c div 16), hex_char (byte_val c mod 16)])"

definition json_string :: "string \<Rightarrow> string" where
  "json_string s = [CHR ''\"''] @ concat (map json_escape_char s) @ [CHR ''\"'']"

fun json_encode :: "pyval \<Rightarrow> string option"
  and json_encode_list :: "pyval list \<Rightarrow> string option"
  and json_encode_items :: "(string \<times> pyval) list \<Rightarrow> string option" where
  "json_encode PNone = Some ''null''"
| "json_encode (PBool b) = Some (if b then ''true'' else ''false'')"
| "json_encode (PInt i) = Some (str_int i)"
| "json_encode (PFloat f) = Some (float_str f)"
| "json_encode PNaN = Some ''NaN''"
| "json_encode (PInfinity negative) = Some (if negative then ''-Infinity'' else ''Infinity'')"
| "json_encode (PStr s) = Some (json_string s)"
| "json_encode (PList xs) = map_option (\<lambda>b. ''['' @ b @ '']'') (json_encode_list xs)"
| "json_encode (PTuple xs) = map_option (\<lambda>b. ''['' @ b @ '']'') (json_encode_list xs)"
| "json_encode (PDict kvs) = map_option (\<lambda>b. ''{'' @ b @ ''}'') (json_encode_items kvs)"
| "json_encode (PObject t) = None"
| "json_encode_list [] = Some []"
| "json_encode_list (x # xs) =
     (case json_encode x of
        None \<Rightarrow> None
      | Some a \<Rightarrow>
          (if xs = [] then Some a
           else map_option (\<lambda>b. a @ '', '' @ b) (json_encode_list xs)))"
| "json_encode_items [] = Some []"
| "json_encode_items ((k, v) # kvs) =
     (case json_encode v of
        None \<Rightarrow> None
      | Some a \<Rightarrow>
          (if kvs = [] then Some (json_string k @ '': '' @ a)
           else map_option (\<lambda>b. json_string k @ '': '' @ a @ '', '' @ b) (json_encode_items kvs)))"

definition json_dumps :: "pyval \<Rightarrow> string option" where
  "json_dumps v = json_encode v"

definition is_ws :: "char \<Rightarrow> bool" where
  "is_ws c \<longleftrightarrow> c = CHR '' '' \<or> c = CHR 0x09 \<or> c = CHR 0x0A \<or> c = CHR 0x0D"

definition skip_ws :: "string \<Rightarrow> string" where
  "skip_ws s = dropWhile is_ws s"

definition is_digit :: "char \<Rightarrow> bool" where
  "is_digit c \<longleftrightarrow> 48 \<le> byte_val c \<and> byte_val c \<le> 57"

definition digit_val :: "char \<Rightarrow> nat" where
  "digit_val c = byte_val c - 48"

definition nat_of_digits :: "string \<Rightarrow> nat" where
  "nat_of_digits ds = foldl (\<lambda>n c. 10 * n + digit_val c) 0 ds"

definition hex_val :: "char \<Rightarrow> nat option" where
  "hex_val c =
     (let n = byte_val c
      in if 48 \<le> n \<and> n \<le> 57 then Some (n - 48)
         else if 97 \<le> n \<and> n \<le> 102 then Some (n - 87)
         else if 65 \<le> n \<and> n \<le> 70 then Some (n - 55)
         else None)"

definition hex4 :: "char \<Rightarrow> char \<Rightarrow> char \<Rightarrow> char \<Rightarrow> nat option" where
  "hex4 a b c d =
     (case (hex_val a, hex_val b, hex_val c, hex_val d) of
        (Some w, Some x, Some y, Some z) \<Rightarrow> Some (((w * 16 + x) * 16 + y) * 16 + z)
      | _ \<Rightarrow> None)"

definition unescape :: "char \<Rightarrow> char option" where
  "unescape e =
     (if e = CHR ''\"'' then Some (CHR ''\"'')
      else if e = CHR 0x5C then Some (CHR 0x5C)
      else if e = CHR ''/'' then Some (CHR ''/'')
      else if e = CHR ''b'' then Some (CHR 0x08)
      else if e = CHR ''f'' then Some (CHR 0x0C)
      else if e = CHR ''n'' then Some (CHR 0x0A)
      else if e = CHR ''r'' then Some (CHR 0x0D)
      else if e = CHR ''t'' then Some (CHR 0x09)
      else None)"

fun scan_string :: "string \<Rightarrow> (string \<times> string) option" where
  "scan_string [] = None"
| "scan_string (c # cs) =
     (if c = CHR ''\"'' then Some ([], cs)
      else if c = CHR 0x5C then
        (case cs of
           [] \<Rightarrow> None
         | e # cs1 \<Rightarrow>
             if e = CHR ''u'' then
               (case cs1 of
                  h1 # h2 # h3 # h4 # cs2 \<Rightarrow>
                    (case hex4 h1 h2 h3 h4 of
                       None \<Rightarrow> None
                     | Some n \<Rightarrow>
                         if n < 256
                         then map_option (\<lambda>(s, r). (byte_of n # s, r)) (scan_string cs2)
                         else None)
                | _ \<Rightarrow> None)
             else
               (case unescape e of
                  None \<Rightarrow> None
                | Some ch \<Rightarrow> map_option (\<lambda>(s, r). (ch # s, r)) (scan_string cs1)))
      else if byte_val c < 32 then None
      else map_option (\<lambda>(s, r). (c # s, r)) (scan_string cs))"

fun normalize_float :: "nat \<Rightarrow> nat \<Rightarrow> nat \<times> nat" where
  "normalize_float m 0 = (m, 0)"
| "normalize_float m (Suc k) =
     (if m mod 10 = 0 then normalize_float (m div 10) k else (m, Suc k))"

definition make_float :: "bool \<Rightarrow> string \<Rightarrow> string \<Rightarrow> int \<Rightarrow> pyfloat" where
  "make_float sign ip fp ex =
     (let m = nat_of_digits (ip @ fp);
          k = int (length fp) - ex;
          (m1, k1) = (if k < 0 then (m * 10 ^ nat (- k), 0) else normalize_float m (nat k))
      in PyFloat sign m1 k1)"

definition scan_int_part :: "string \<Rightarrow> (string \<times> string) option" where
  "scan_int_part s =
     (case s of
        [] \<Rightarrow> None
      | c # cs \<Rightarrow>
          if c = CHR ''0'' then Some ([c], cs)
          else if is_digit c then Some (takeWhile is_digit s, dropWhile is_digit s)
          else None)"

definition scan_frac :: "string \<Rightarrow> string \<times> string" where
  "scan_frac s =
     (case s of
        c # d # cs \<Rightarrow>
          if c = CHR ''.'' \<and> is_digit d
          then (takeWhile is_digit (d # cs), dropWhile is_digit (d # cs))
          else ([], s)
      | _ \<Rightarrow> ([], s))"

definition scan_exp :: "string \<Rightarrow> int option \<times> string" where
  "scan_exp s =
     (case s of
        [] \<Rightarrow> (None, s)
      | e # cs \<Rightarrow>
          if e = CHR ''e'' \<or> e = CHR ''E'' then
            (let (sg, ds) = (case cs of
                               [] \<Rightarrow> (1, cs)
                             | c # cs1 \<Rightarrow> if c = CHR ''-'' then (- 1, cs1)
                                          else if c = CHR ''+'' then (1, cs1) else (1, cs))
             in if ds \<noteq> [] \<and> is_digit (hd ds)
                then (Some (sg * int (nat_of_digits (takeWhile is_digit ds))), dropWhile is_digit ds)
                else (None, s))
          else (None, s))"

definition scan_number :: "string \<Rightarrow> (pyval \<times> string) option" where
  "scan_number s =
     (let (sign, s1) = (case s of c # cs \<Rightarrow> if c = CHR ''-'' then (True, cs) else (False, s)
                                | [] \<Rightarrow> (False, s))
      in case scan_int_part s1 of
           None \<Rightarrow> None
         | Some (ip, s2) \<Rightarrow>
             (let (fp, s3) = scan_frac s2;
                  (ex, s4) = scan_exp s3
              in if fp = [] \<and> ex = None
                 then Some (PInt (if sign then - int (nat_of_digits ip) else int (nat_of_digits ip)), s4)
                 else Some (PFloat (make_float sign ip fp (case ex of None \<Rightarrow> 0 | Some e \<Rightarrow> e)), s4)))"

fun dict_set :: "(string \<times> pyval) list \<Rightarrow> string \<Rightarrow> pyval \<Rightarrow> (string \<times> pyval) list" where
  "dict_set [] k v = [(k, v)]"
| "dict_set ((k', v') # kvs) k v = (if k' = k then (k, v) # kvs else (k', v') # dict_set kvs k v)"

fun dict_get :: "(string \<times> pyval) list \<Rightarrow> string \<Rightarrow> pyval option" where
  "dict_get [] k = None"
| "dict_get ((k', v') # kvs) k = (if k' = k then Some v' else dict_get kvs k)"

fun parse_value :: "nat \<Rightarrow> string \<Rightarrow> (pyval \<times> string) option"
  and parse_elements :: "nat \<Rightarrow> string \<Rightarrow> pyval list \<Rightarrow> (pyval \<times> string) option"
  and parse_members :: "nat \<Rightarrow> string \<Rightarrow> (string \<times> pyval) list \<Rightarrow> (pyval \<times> string) option" where
  "parse_value 0 s = None"
| "parse_value (Suc n) s =
     (case s of
        [] \<Rightarrow> None
      | c # cs \<Rightarrow>
          if c = CHR ''\"'' then map_option (\<lambda>(t, r). (PStr t, r)) (scan_string cs)
          else if c = CHR ''{'' then
            (case skip_ws cs of
               [] \<Rightarrow> None
             | d # r \<Rightarrow> if d = CHR ''}'' then Some (PDict [], r)
                        else if d = CHR ''\"'' then parse_members n r []
                        else None)
          else if c = CHR ''['' then
            (case skip_ws cs of
               [] \<Rightarrow> None
             | d # r \<Rightarrow> if d = CHR '']'' then Some (PList [], r)
                        else parse_elements n (d # r) [])
          else if take 4 s = ''null'' then Some (PNone, drop 4 s)
          else if take 4 s = ''true'' then Some (PBool True, drop 4 s)
          else if take 5 s = ''false'' then Some (PBool False, drop 5 s)
          else
            (case scan_number s of
               Some r \<Rightarrow> Some r
             | None \<Rightarrow>
                 if take 3 s = ''NaN'' then Some (PNaN, drop 3 s)
                 else if take 8 s = ''Infinity'' then Some (PInfinity False, drop 8 s)
                 else if take 9 s = ''-Infinity'' then Some (PInfinity True, drop 9 s)
                 else None))"
| "parse_elements 0 s acc = None"
| "parse_elements (Suc n) s acc =
     (case parse_value n s of
        None \<Rightarrow> None
      | Some (v, r) \<Rightarrow>
          (case skip_ws r of
             [] \<Rightarrow> None
           | d # r1 \<Rightarrow> if d = CHR '']'' then Some (PList (acc @ [v]), r1)
                       else if d = CHR '','' then parse_elements n (skip_ws r1) (acc @ [v])
                       else None))"
| "parse_members 0 s acc = None"
| "parse_members (Suc n) s acc =
     (case scan_string s of
        None \<Rightarrow> None
      | Some (k, r) \<Rightarrow>
          (case skip_ws r of
             [] \<Rightarrow> None
           | d # r1 \<Rightarrow>
               if d \<noteq> CHR '':'' then None
               else
                 (case parse_value n (skip_ws r1) of
                    None \<Rightarrow> None
                  | Some (v, r2) \<Rightarrow>
                      (case skip_ws r2 of
                         [] \<Rightarrow> None
                       | d2 # r3 \<Rightarrow>
                           if d2 = CHR ''}'' then Some (PDict (dict_set acc k v), r3)
                           else if d2 = CHR '','' then
                             (case skip_ws r3 of
                                [] \<Rightarrow> None
                              | d3 # r4 \<Rightarrow> if d3 = CHR ''\"'' then parse_members n r4 (dict_set acc k v)
                                           else None)
                           else None))))"

definition json_loads :: "string \<Rightarrow> pyval option" where
  "json_loads s =
     (case parse_value (Suc (length s)) (skip_ws s) of
        None \<Rightarrow> None
      | Some (v, r) \<Rightarrow> if skip_ws r = [] then Some v else None)"

subsection \<open>\<^verbatim>\<open>SimpleJWT\<close> and the bearer check\<close>

datatype token_error = Invalid_token_format | Invalid_signature | Token_has_expired | Library_error

definition jwt_header :: pyval where
  "jwt_header = PDict [(''alg'', PStr ''HS256''), (''typ'', PStr ''JWT'')]"

definition encode :: "(bytes \<Rightarrow> bytes) \<Rightarrow> pyval \<Rightarrow> string \<Rightarrow> string" where
  "encode sha256 payload secret =
     (case json_dumps jwt_header of
        None \<Rightarrow> []
      | Some header_json \<Rightarrow>
          (case json_dumps payload of
             None \<Rightarrow> []
           | Some payload_json \<Rightarrow>
               (let header_encoded = rstrip (CHR ''='') (urlsafe_b64encode (utf8_encode header_json));
                    payload_encoded = rstrip (CHR ''='') (urlsafe_b64encode (utf8_encode payload_json));
                    message = header_encoded @ ''.'' @ payload_encoded;
                    signature = hmac_digest sha256 (utf8_encode secret) (utf8_encode message);
                    signature_encoded = rstrip (CHR ''='') (urlsafe_b64encode signature)
                in message @ ''.'' @ signature_encoded)))"

definition compare_digest :: "string \<Rightarrow> string \<Rightarrow> bool option" where
  "compare_digest a b =
     (if list_all is_ascii a \<and> list_all is_ascii b then Some (a = b) else None)"

fun contains_sub :: "string \<Rightarrow> string \<Rightarrow> bool" where
  "contains_sub p [] = (p = [])"
| "contains_sub p (c # cs) = (take (length p) (c # cs) = p \<or> contains_sub p cs)"

definition py_contains :: "string \<Rightarrow> pyval \<Rightarrow> bool option" where
  "py_contains k v =
     (case v of
        PDict kvs \<Rightarrow> Some (dict_get kvs k \<noteq> None)
      | PList xs \<Rightarrow> Some (PStr k \<in> set xs)
      | PTuple xs \<Rightarrow> Some (PStr k \<in> set xs)
      | PStr s \<Rightarrow> Some (contains_sub k s)
      | _ \<Rightarrow> None)"

definition py_getitem :: "pyval \<Rightarrow> string \<Rightarrow> pyval option" where
  "py_getitem v k = (case v of PDict kvs \<Rightarrow> dict_get kvs k | _ \<Rightarrow> None)"

text \<open>
  The float that a decimal numeral denotes: the nearest double, or an infinity beyond the
  largest one.
\<close>

definition float_of_decimal :: "pyfloat \<Rightarrow> float_value" where
  "float_of_decimal f =
     (let r = float_round (fval f)
      in if 2 ^ 1024 \<le> \<bar>r\<bar> then Infinity (neg f) else Finite r)"

definition float_less :: "float_value \<Rightarrow> real \<Rightarrow> bool" where
  "float_less v t = (case v of Finite r \<Rightarrow> r < t | Infinity negative \<Rightarrow> negative)"

text \<open>
  \<^verbatim>\<open>payload['exp'] < time.time()\<close>: numbers are compared by value, anything else raises
  \<^verbatim>\<open>TypeError\<close>.
\<close>

definition py_less_time :: "pyval \<Rightarrow> real \<Rightarrow> bool option" where
  "py_less_time v t =
     (case v of
        PInt i \<Rightarrow> Some (real_of_int i < t)
      | PFloat f \<Rightarrow> Some (float_less (float_of_decimal f) t)
      | PNaN \<Rightarrow> Some False
      | PInfinity negative \<Rightarrow> Some negative
      | PBool b \<Rightarrow> Some ((if b then 1 else 0) < t)
      | _ \<Rightarrow> None)"

definition check_expiration :: "real \<Rightarrow> pyval \<Rightarrow> token_error + pyval" where
  "check_expiration now payload =
     (case py_contains ''exp'' payload of
        None \<Rightarrow> Inl Library_error
      | Some False \<Rightarrow> Inr payload
      | Some True \<Rightarrow>
          (case py_getitem payload ''exp'' of
             None \<Rightarrow> Inl Library_error
           | Some e \<Rightarrow>
               (case py_less_time e now of
                  None \<Rightarrow> Inl Library_error
                | Some True \<Rightarrow> Inl Token_has_expired
                | Some False \<Rightarrow> Inr payload)))"

definition decode :: "(bytes \<Rightarrow> bytes) \<Rightarrow> real \<Rightarrow> string \<Rightarrow> string \<Rightarrow> token_error + pyval" where
  "decode sha256 now token secret =
     (let parts = split_on (CHR ''.'') token
      in if length parts \<noteq> 3 then Inl Invalid_token_format
         else
           (let header_encoded = parts ! 0;
                payload_encoded = parts ! 1;
                signature_encoded = parts ! 2;
                message = header_encoded @ ''.'' @ payload_encoded;
                expected_signature = hmac_digest sha256 (utf8_encode secret) (utf8_encode message);
                expected_signature_encoded =
                  rstrip (CHR ''='') (urlsafe_b64encode expected_signature)
            in case compare_digest signature_encoded expected_signature_encoded of
                 None \<Rightarrow> Inl Library_error
               | Some False \<Rightarrow> Inl Invalid_signature
               | Some True \<Rightarrow>
                   (case urlsafe_b64decode (payload_encoded @ ''=='') of
                      None \<Rightarrow> Inl Library_error
                    | Some payload_bytes \<Rightarrow>
                        (case utf8_decode payload_bytes of
                           None \<Rightarrow> Inl Library_error
                         | Some payload_json \<Rightarrow>
                             (case json_loads payload_json of
                                None \<Rightarrow> Inl Library_error
                              | Some payload \<Rightarrow> check_expiration now payload)))))"

definition ACCESS_TOKEN_EXPIRE_MINUTES :: int where
  "ACCESS_TOKEN_EXPIRE_MINUTES = 60"

definition default_SECRET_KEY :: string where
  "default_SECRET_KEY = ''your-super-secret-key-change-in-production''"

definition float_of_micros :: "int \<Rightarrow> pyfloat" where
  "float_of_micros us =
     (case normalize_float (nat \<bar>us\<bar>) 6 of (m, k) \<Rightarrow> PyFloat (us < 0) m k)"

definition timestamp :: "int \<Rightarrow> int \<Rightarrow> pyfloat" where
  "timestamp utc_offset naive_us = float_of_micros (naive_us - utc_offset * 1000000)"

definition create_access_token ::
  "(bytes \<Rightarrow> bytes) \<Rightarrow> string \<Rightarrow> int \<Rightarrow> int \<Rightarrow> (string \<times> pyval) list \<Rightarrow> int option \<Rightarrow> string" where
  "create_access_token sha256 secret_key utc_offset utcnow data expires_delta =
     (let to_encode = data;
          expire = (case expires_delta of
                      Some d \<Rightarrow> if d \<noteq> 0 then utcnow + d
                               else utcnow + ACCESS_TOKEN_EXPIRE_MINUTES * 60000000
                    | None \<Rightarrow> utcnow + ACCESS_TOKEN_EXPIRE_MINUTES * 60000000);
          to_encode = dict_set to_encode ''exp'' (PFloat (timestamp utc_offset expire));
          encoded_jwt = encode sha256 (PDict to_encode) secret_key
      in encoded_jwt)"

definition verify_jwt :: "(bytes \<Rightarrow> bytes) \<Rightarrow> string \<Rightarrow> real \<Rightarrow> string \<Rightarrow> bool" where
  "verify_jwt sha256 secret_key now token =
     (case decode sha256 now token secret_key of
        Inl e \<Rightarrow> False
      | Inr payload \<Rightarrow>
          (case payload of
             PDict kvs \<Rightarrow> (case dict_get kvs ''sub'' of None \<Rightarrow> False | Some v \<Rightarrow> v \<noteq> PNone)
           | _ \<Rightarrow> False))"

datatype http_exception = HTTPException (status_code: nat) (detail: string)

definition HTTP_403_FORBIDDEN :: nat where
  "HTTP_403_FORBIDDEN = 403"

definition bearer_call ::
  "(bytes \<Rightarrow> bytes) \<Rightarrow> string \<Rightarrow> real \<Rightarrow> (string \<times> string) option \<Rightarrow> http_exception + string" where
  "bearer_call sha256 secret_key now credentials =
     (case credentials of
        Some (scheme, token) \<Rightarrow>
          if \<not> scheme = ''Bearer''
          then Inl (HTTPException HTTP_403_FORBIDDEN
                      ''Invalid authentication scheme. Bearer token required.'')
          else if \<not> verify_jwt sha256 secret_key now token
          then Inl (HTTPException HTTP_403_FORBIDDEN ''Invalid token or expired token.'')
          else Inr token
      | None \<Rightarrow> Inl (HTTPException HTTP_403_FORBIDDEN ''Invalid authorization code.''))"

subsection \<open>Tokens: reading the claims\<close>

text \<open>
  A payload is serializable when no value in it is of a type that \<^verbatim>\<open>json.dumps\<close> rejects.
\<close>

fun serializable :: "pyval \<Rightarrow> bool"
  and serializable_list :: "pyval list \<Rightarrow> bool"
  and serializable_items :: "(string \<times> pyval) list \<Rightarrow> bool" where
  "serializable (PList xs) = serializable_list xs"
| "serializable (PTuple xs) = serializable_list xs"
| "serializable (PDict kvs) = serializable_items kvs"
| "serializable (PObject t) = False"
| "serializable PNone = True"
| "serializable (PBool b) = True"
| "serializable (PInt i) = True"
| "serializable (PFloat f) = True"
| "serializable PNaN = True"
| "serializable (PInfinity negative) = True"
| "serializable (PStr s) = True"
| "serializable_list [] = True"
| "serializable_list (x # xs) = (serializable x \<and> serializable_list xs)"
| "serializable_items [] = True"
| "serializable_items ((k, v) # kvs) = (serializable v \<and> serializable_items kvs)"

text \<open>The characters of the URL-safe base64 alphabet: letters, digits, \<open>-\<close> and \<open>_\<close>.\<close>

definition is_b64url_char :: "char \<Rightarrow> bool" where
  "is_b64url_char c \<longleftrightarrow>
     (let n = byte_val c
      in 65 \<le> n \<and> n \<le> 90 \<or> 97 \<le> n \<and> n \<le> 122 \<or> 48 \<le> n \<and> n \<le> 57 \<or>
         c = CHR ''-'' \<or> c = CHR ''_'')"


text \<open>
  The signature segment of a token is its last segment; \<open>replace_signature_char token i c\<close>
  puts \<open>c\<close> in place of the character at position \<open>i\<close> of that segment.
\<close>

definition signature_segment :: "string \<Rightarrow> string" where
  "signature_segment token = last (split_on (CHR ''.'') token)"

definition replace_signature_char :: "string \<Rightarrow> nat \<Rightarrow> char \<Rightarrow> string" where
  "replace_signature_char token i c =
     token[length token - length (signature_segment token) + i := c]"


subsection \<open>Reading the claims\<close>

text \<open>The order of the status bands: LOW < MEDIUM < HIGH < CRITICAL.\<close>

definition band_rank :: "string \<Rightarrow> nat" where
  "band_rank s =
     (if s = ''LOW'' then 0 else if s = ''MEDIUM'' then 1
      else if s = ''HIGH'' then 2 else if s = ''CRITICAL'' then 3 else 4)"

text \<open>A reading of bin \<open>b\<close> with the three levels given.\<close>

definition reading :: "string \<Rightarrow> pyfloat \<Rightarrow> pyfloat \<Rightarrow> pyfloat \<Rightarrow> WasteBinData" where
  "reading b x y z =
     \<lparr>bin_id = b, organic_level = x, recyclable_level = y, hazardous_level = z\<rparr>"

text \<open>The largest of the three levels of a reading, as a number.\<close>

definition max_level :: "WasteBinData \<Rightarrow> real" where
  "max_level d = Max {fval (organic_level d), fval (recyclable_level d), fval (hazardous_level d)}"

text \<open>The float with \<open>n\<close> tenths, such as 59.9 for 599.\<close>

definition tenths :: "nat \<Rightarrow> pyfloat" where
  "tenths n = PyFloat False n 1"

text \<open>The float of a whole number, such as 85.0.\<close>

definition whole :: "nat \<Rightarrow> pyfloat" where
  "whole n = PyFloat False n 0"

text \<open>The waste categories in the order the code tests them.\<close>

datatype category = Organic | Recyclable | Hazardous

definition categories :: "category list" where
  "categories = [Organic, Recyclable, Hazardous]"

fun level_of :: "WasteBinData \<Rightarrow> category \<Rightarrow> pyfloat" where
  "level_of d Organic = organic_level d"
| "level_of d Recyclable = recyclable_level d"
| "level_of d Hazardous = hazardous_level d"

text \<open>The stored alert and the notification of one category.\<close>

fun alert_message :: "WasteBinData \<Rightarrow> category \<Rightarrow> string" where
  "alert_message d Organic =
     ''Organic waste level critical: '' @ float_repr (organic_level d) @ ''%''"
| "alert_message d Recyclable =
     ''Recyclable waste level critical: '' @ float_repr (recyclable_level d) @ ''%''"
| "alert_message d Hazardous =
     ''Hazardous waste level critical: '' @ float_repr (hazardous_level d) @ ''%''"

fun notify_message :: "WasteBinData \<Rightarrow> category \<Rightarrow> string" where
  "notify_message d Organic =
     alert_mark @ '' ALERT: Bin '' @ bin_id d @ '' - Organic waste level is ''
       @ float_repr (organic_level d) @ ''% (exceeds 80.0%)''"
| "notify_message d Recyclable =
     alert_mark @ '' ALERT: Bin '' @ bin_id d @ '' - Recyclable waste level is ''
       @ float_repr (recyclable_level d) @ ''% (exceeds 80.0%)''"
| "notify_message d Hazardous =
     alert_mark @ '' CRITICAL ALERT: Bin '' @ bin_id d @ '' - Hazardous waste level is ''
       @ float_repr (hazardous_level d) @ ''% (exceeds 80.0%)''"

text \<open>
  \<open>allow\<close> as the specification words it: the timestamps older than \<open>now - window\<close> are
  pruned; when the remaining count is below the limit, \<open>now\<close> is recorded and the call is
  allowed, otherwise it is denied and nothing is recorded.
\<close>

definition allow_spec :: "real \<Rightarrow> string \<Rightarrow> int \<Rightarrow> int \<Rightarrow> requests \<Rightarrow> bool \<times> requests" where
  "allow_spec now identifier limit window reqs =
     (let remaining = filter (\<lambda>t. \<not> t < now - real_of_int window) (recorded reqs identifier)
      in if int (length remaining) < limit
         then (True, reqs(identifier \<mapsto> remaining @ [now]))
         else (False, reqs(identifier \<mapsto> remaining)))"

section \<open>Printing numbers\<close>

lemma str_nat_small: "n < 10 \<Longrightarrow> str_nat n = [digit_char n]"
  by (subst str_nat.simps) simp

lemma str_nat_big: "10 \<le> n \<Longrightarrow> str_nat n = str_nat (n div 10) @ [digit_char (n mod 10)]"
  by (subst str_nat.simps) simp

lemma float_repr_threshold: "float_repr threshold = ''80.0''"
  by (simp add: float_repr_def threshold_def str_nat_big str_nat_small digit_char_def)

lemma fval_threshold: "fval threshold = 80"
  by (simp add: fval_def threshold_def)

section \<open>Status bands\<close>

lemma max_level_eq:
  "max_level d = max (fval (organic_level d)) (max (fval (recyclable_level d)) (fval (hazardous_level d)))"
  by (simp add: max_level_def)

lemma status_max:
  "calculate_bin_status d =
     (if max_level d \<ge> 90 then ''CRITICAL''
      else if max_level d \<ge> 80 then ''HIGH''
      else if max_level d \<ge> 60 then ''MEDIUM'' else ''LOW'')"
  by (simp add: calculate_bin_status_def Let_def max_level_eq)

lemma band_rank_status:
  "band_rank (calculate_bin_status d) =
     (if max_level d \<ge> 90 then 3
      else if max_level d \<ge> 80 then 2
      else if max_level d \<ge> 60 then 1 else 0)"
  by (simp add: status_max band_rank_def)

lemma band_rank_mono:
  assumes "m \<le> (m' :: real)"
  shows "(if m \<ge> 90 then 3 else if m \<ge> 80 then 2 else if m \<ge> 60 then 1 else (0::nat))
       \<le> (if m' \<ge> 90 then 3 else if m' \<ge> 80 then 2 else if m' \<ge> 60 then 1 else 0)"
  using assms by auto

lemma max_level_points:
  "max_level (reading b (tenths n) (tenths n) (tenths n)) = real n / 10"
  "max_level (reading b (whole n) (whole n) (whole n)) = real n"
  by (simp_all add: max_level_eq reading_def tenths_def whole_def fval_def)

text \<open>
  C2. For every reading, whatever its bin identifier, \<^verbatim>\<open>_calculate_bin_status\<close> returns
  CRITICAL exactly when the largest of the three levels is at least 90, HIGH exactly when
  it is in [80, 90), MEDIUM exactly when it is in [60, 80) and LOW exactly when it is
  below 60; on three equal levels, for every bin identifier, it gives LOW at 59.9, MEDIUM
  at 60 and 79.9, HIGH at 80 and 89.9 and CRITICAL at 90.
\<close>

theorem classify_bands:
  "(calculate_bin_status d = ''CRITICAL'') = (max_level d \<ge> 90) \<and>
   (calculate_bin_status d = ''HIGH'') = (80 \<le> max_level d \<and> max_level d < 90) \<and>
   (calculate_bin_status d = ''MEDIUM'') = (60 \<le> max_level d \<and> max_level d < 80) \<and>
   (calculate_bin_status d = ''LOW'') = (max_level d < 60) \<and>
   calculate_bin_status (reading b (tenths 599) (tenths 599) (tenths 599)) = ''LOW'' \<and>
   calculate_bin_status (reading b (whole 60) (whole 60) (whole 60)) = ''MEDIUM'' \<and>
   calculate_bin_status (reading b (tenths 799) (tenths 799) (tenths 799)) = ''MEDIUM'' \<and>
   calculate_bin_status (reading b (whole 80) (whole 80) (whole 80)) = ''HIGH'' \<and>
   calculate_bin_status (reading b (tenths 899) (tenths 899) (tenths 899)) = ''HIGH'' \<and>
   calculate_bin_status (reading b (whole 90) (whole 90) (whole 90)) = ''CRITICAL''"
proof -
  let ?m = "max_level d"
  have c: "(calculate_bin_status d = ''CRITICAL'') = (?m \<ge> 90)"
    by (simp add: status_max)
  have h: "(calculate_bin_status d = ''HIGH'') = (80 \<le> ?m \<and> ?m < 90)"
    by (auto simp: status_max)
  have m: "(calculate_bin_status d = ''MEDIUM'') = (60 \<le> ?m \<and> ?m < 80)"
    by (auto simp: status_max)
  have l: "(calculate_bin_status d = ''LOW'') = (?m < 60)"
    by (auto simp: status_max)
  have pts: "calculate_bin_status (reading b (tenths 599) (tenths 599) (tenths 599)) = ''LOW''"
    "calculate_bin_status (reading b (whole 60) (whole 60) (whole 60)) = ''MEDIUM''"
    "calculate_bin_status (reading b (tenths 799) (tenths 799) (tenths 799)) = ''MEDIUM''"
    "calculate_bin_status (reading b (whole 80) (whole 80) (whole 80)) = ''HIGH''"
    "calculate_bin_status (reading b (tenths 899) (tenths 899) (tenths 899)) = ''HIGH''"
    "calculate_bin_status (reading b (whole 90) (whole 90) (whole 90)) = ''CRITICAL''"
    by (simp_all add: status_max max_level_points)
  from c h m l pts show ?thesis by blast
qed

text \<open>
  C8. For every reading \<open>d\<close>, putting a level \<open>a'\<close> in place of a level \<open>a\<close> that is not
  larger, as the organic, the recyclable or the hazardous level of \<open>d\<close> and with the other
  two levels and the bin identifier of \<open>d\<close> left as they are, never lowers the status
  band in the order LOW < MEDIUM < HIGH < CRITICAL.
\<close>

theorem classify_monotone:
  assumes "fval a \<le> fval a'"
  shows "band_rank (calculate_bin_status (d\<lparr>organic_level := a\<rparr>))
           \<le> band_rank (calculate_bin_status (d\<lparr>organic_level := a'\<rparr>)) \<and>
         band_rank (calculate_bin_status (d\<lparr>recyclable_level := a\<rparr>))
           \<le> band_rank (calculate_bin_status (d\<lparr>recyclable_level := a'\<rparr>)) \<and>
         band_rank (calculate_bin_status (d\<lparr>hazardous_level := a\<rparr>))
           \<le> band_rank (calculate_bin_status (d\<lparr>hazardous_level := a'\<rparr>))"
proof -
  have 1: "max_level (d\<lparr>organic_level := a\<rparr>) \<le> max_level (d\<lparr>organic_level := a'\<rparr>)"
    and 2: "max_level (d\<lparr>recyclable_level := a\<rparr>) \<le> max_level (d\<lparr>recyclable_level := a'\<rparr>)"
    and 3: "max_level (d\<lparr>hazardous_level := a\<rparr>) \<le> max_level (d\<lparr>hazardous_level := a'\<rparr>)"
    using assms by (auto simp: max_level_eq)
  show ?thesis
    unfolding band_rank_status
    using band_rank_mono [OF 1] band_rank_mono [OF 2] band_rank_mono [OF 3] by blast
qed

theorem classify_monotone_witness:
  "fval (whole 50) \<le> fval (whole 85) \<and>
   band_rank (calculate_bin_status (reading ''BIN-001'' (whole 50) (whole 10) (whole 20)))
     \<le> band_rank (calculate_bin_status (reading ''BIN-001'' (whole 85) (whole 10) (whole 20))) \<and>
   band_rank (calculate_bin_status (reading ''BIN-001'' (whole 70) (whole 50) (whole 20)))
     \<le> band_rank (calculate_bin_status (reading ''BIN-001'' (whole 70) (whole 85) (whole 20))) \<and>
   band_rank (calculate_bin_status (reading ''BIN-001'' (whole 70) (whole 10) (whole 50)))
     \<le> band_rank (calculate_bin_status (reading ''BIN-001'' (whole 70) (whole 10) (whole 85))) \<and>
   band_rank (calculate_bin_status (reading ''BIN-001'' (whole 50) (whole 10) (whole 20))) = 0 \<and>
   band_rank (calculate_bin_status (reading ''BIN-001'' (whole 85) (whole 10) (whole 20))) = 2"
  using classify_monotone [where a = "whole 50" and a' = "whole 85"
      and d = "reading ''BIN-001'' (whole 70) (whole 10) (whole 20)"]
  by (simp add: band_rank_status max_level_eq reading_def whole_def fval_def)

section \<open>Alerts and notifications\<close>

lemma set_categories: "set categories = UNIV"
proof -
  have "c \<in> set categories" for c by (cases c) (simp_all add: categories_def)
  then show ?thesis by blast
qed

lemma distinct_categories: "distinct categories"
  by (simp add: categories_def)

lemma generate_alerts_filter:
  "generate_alerts d = map (alert_message d) (filter (\<lambda>c. fval (level_of d c) \<ge> 80) categories)"
  by (simp add: generate_alerts_def categories_def Let_def)

lemma check_and_notify_filter:
  "check_and_notify d = map (notify_message d) (filter (\<lambda>c. fval (level_of d c) > 80) categories)"
  by (simp add: check_and_notify_def fval_threshold float_repr_threshold categories_def Let_def)

lemma notify_message_inj: "inj (notify_message d)"
proof (rule injI)
  fix c c' assume "notify_message d c = notify_message d c'"
  then show "c = c'" by (cases c; cases c') simp_all
qed

lemma alert_message_inj: "inj (alert_message d)"
proof (rule injI)
  fix c c' assume "alert_message d c = alert_message d c'"
  then show "c = c'" by (cases c; cases c') simp_all
qed

text \<open>
  C4. The stored alerts are one message for each category whose level is at least 80, in
  the order organic, recyclable, hazardous; the notifications are one message for each
  category whose level is above 80, in the same order. A category has a stored alert and
  no notification exactly when its level is 80.
\<close>

theorem alerts_and_notifications:
  "generate_alerts d =
     map (alert_message d) (filter (\<lambda>c. fval (level_of d c) \<ge> 80) categories) \<and>
   check_and_notify d =
     map (notify_message d) (filter (\<lambda>c. fval (level_of d c) > 80) categories) \<and>
   categories = [Organic, Recyclable, Hazardous] \<and>
   distinct (generate_alerts d) \<and> distinct (check_and_notify d) \<and>
   (alert_message d c \<in> set (generate_alerts d)) = (fval (level_of d c) \<ge> 80) \<and>
   (notify_message d c \<in> set (check_and_notify d)) = (fval (level_of d c) > 80) \<and>
   (fval (level_of d c) = 80) =
     (alert_message d c \<in> set (generate_alerts d) \<and>
      notify_message d c \<notin> set (check_and_notify d))"
proof -
  have a: "(alert_message d c \<in> set (generate_alerts d)) = (fval (level_of d c) \<ge> 80)"
    by (simp add: generate_alerts_filter inj_image_mem_iff [OF alert_message_inj] set_categories)
  have n: "(notify_message d c \<in> set (check_and_notify d)) = (fval (level_of d c) > 80)"
    by (simp add: check_and_notify_filter inj_image_mem_iff [OF notify_message_inj] set_categories)
  have da: "distinct (generate_alerts d)"
    unfolding generate_alerts_filter
    by (simp add: distinct_map distinct_categories inj_on_subset [OF alert_message_inj])
  have dn: "distinct (check_and_notify d)"
    unfolding check_and_notify_filter
    by (simp add: distinct_map distinct_categories inj_on_subset [OF notify_message_inj])
  have b: "(fval (level_of d c) = 80) =
     (alert_message d c \<in> set (generate_alerts d) \<and>
      notify_message d c \<notin> set (check_and_notify d))"
    unfolding a n by auto
  from a n da dn b generate_alerts_filter check_and_notify_filter categories_def
  show ?thesis by blast
qed

section \<open>Float subtraction\<close>

lemma round_half_even_of_int: "round_half_even (of_int m) = m"
  by (simp add: round_half_even_def)

lemma round_half_even_floor: "\<lfloor>q\<rfloor> \<le> round_half_even q \<and> round_half_even q \<le> \<lfloor>q\<rfloor> + 1"
  by (simp add: round_half_even_def Let_def)

lemma round_half_even_mono:
  assumes "q \<le> q'"
  shows "round_half_even q \<le> round_half_even q'"
proof (cases "\<lfloor>q\<rfloor> = \<lfloor>q'\<rfloor>")
  case True
  then show ?thesis using assms by (auto simp: round_half_even_def Let_def)
next
  case False
  then have "\<lfloor>q\<rfloor> < \<lfloor>q'\<rfloor>" using floor_mono [OF assms] by linarith
  then show ?thesis
    using round_half_even_floor [of q] round_half_even_floor [of q'] by linarith
qed

lemma float_ulp_pos: "0 < float_ulp x"
  by (simp add: float_ulp_def)

lemma float_round_lower:
  assumes "of_int m * float_ulp x \<le> x"
  shows "of_int m * float_ulp x \<le> float_round x"
proof -
  have "of_int m \<le> x / float_ulp x"
    using assms float_ulp_pos [of x] by (simp add: pos_le_divide_eq)
  then have "m \<le> round_half_even (x / float_ulp x)"
    using round_half_even_mono [of "of_int m"] by (simp add: round_half_even_of_int)
  then have "(of_int m :: real) \<le> of_int (round_half_even (x / float_ulp x))" by simp
  then show ?thesis
    unfolding float_round_def using float_ulp_pos [of x] by (simp add: mult_right_mono)
qed

lemma float_round_upper:
  assumes "x \<le> of_int m * float_ulp x"
  shows "float_round x \<le> of_int m * float_ulp x"
proof -
  have "x / float_ulp x \<le> of_int m"
    using assms float_ulp_pos [of x] by (simp add: pos_divide_le_eq)
  then have "round_half_even (x / float_ulp x) \<le> m"
    using round_half_even_mono [of _ "of_int m"] by (simp add: round_half_even_of_int)
  then have "(of_int (round_half_even (x / float_ulp x)) :: real) \<le> of_int m" by simp
  then show ?thesis
    unfolding float_round_def using float_ulp_pos [of x] by (simp add: mult_right_mono)
qed

lemma binade_ge1: "1 \<le> a \<Longrightarrow> 0 \<le> binade k a \<and> power_int 2 (binade k a) \<le> a"
proof (induction k arbitrary: a)
  case 0
  then show ?case by simp
next
  case (Suc k)
  show ?case
  proof (cases "2 \<le> a")
    case True
    then have "1 \<le> a / 2" by simp
    from Suc.IH [OF this] have b: "0 \<le> binade k (a / 2)" "power_int 2 (binade k (a / 2)) \<le> a / 2"
      by simp_all
    have "power_int (2::real) (binade k (a / 2) + 1) = power_int 2 (binade k (a / 2)) * 2"
      by (simp add: power_int_add)
    then show ?thesis using True b by simp
  next
    case False
    then show ?thesis using Suc.prems by simp
  qed
qed

lemma binade_lt2: "a < 2 \<Longrightarrow> binade k a \<le> 0"
proof (induction k arbitrary: a)
  case 0
  then show ?case by simp
next
  case (Suc k)
  show ?case
  proof (cases "a < 1")
    case True
    then have "a * 2 < 2" by simp
    from Suc.IH [OF this] show ?thesis using True Suc.prems by simp
  next
    case False
    then show ?thesis using Suc.prems by simp
  qed
qed

lemma float_round_exact:
  assumes "x = of_int m * float_ulp x"
  shows "float_round x = x"
proof -
  have "x / float_ulp x = of_int m"
    using assms float_ulp_pos [of x] by (simp add: nonzero_divide_eq_eq)
  then show ?thesis
    unfolding float_round_def using assms by (simp add: round_half_even_of_int)
qed

lemma float_exponent_ge1:
  assumes "1 \<le> \<bar>x\<bar>"
  shows "0 \<le> float_exponent x" and "power_int 2 (float_exponent x) \<le> \<bar>x\<bar>"
  using binade_ge1 [OF assms, of 2100] by (simp_all add: float_exponent_def max_def)

lemma float_exponent_lt2:
  assumes "\<bar>x\<bar> < 2"
  shows "float_exponent x \<le> 0"
  using binade_lt2 [OF assms, of 2100] by (simp add: float_exponent_def)

lemma float_ulp_small:
  assumes "float_exponent x \<le> 52"
  shows "of_int (2 ^ nat (52 - float_exponent x)) * float_ulp x = 1"
proof -
  have "float_ulp x = power_int 2 (- int (nat (52 - float_exponent x)))"
    using assms by (simp add: float_ulp_def)
  also have "\<dots> = inverse (2 ^ nat (52 - float_exponent x))"
    by (simp only: power_int_minus power_int_of_nat)
  finally show ?thesis by simp
qed

lemma float_ulp_int:
  assumes "float_exponent x \<le> 52"
  shows "of_int (w * 2 ^ nat (52 - float_exponent x)) * float_ulp x = of_int w"
  using float_ulp_small [OF assms] by (simp add: mult.assoc)

lemma float_ulp_big: "of_int (2 ^ 52) * float_ulp x = power_int 2 (float_exponent x)"
proof -
  have "power_int (2::real) (float_exponent x) = power_int 2 (52 + (float_exponent x - 52))"
    by simp
  also have "\<dots> = power_int 2 52 * power_int 2 (float_exponent x - 52)"
    by (subst power_int_add) simp_all
  finally show ?thesis by (simp add: float_ulp_def)
qed

lemma float_round_ge_int:
  assumes "0 < w" and "real_of_int w \<le> 2 ^ 53" and "of_int w \<le> x"
  shows "of_int w \<le> float_round x"
proof -
  have x1: "1 \<le> \<bar>x\<bar>" and xa: "\<bar>x\<bar> = x" using assms by simp_all
  show ?thesis
  proof (cases "float_exponent x \<le> 52")
    case True
    from float_round_lower [of "w * 2 ^ nat (52 - float_exponent x)" x]
    show ?thesis using assms(3) unfolding float_ulp_int [OF True] .
  next
    case False
    then have "53 \<le> float_exponent x" by simp
    then have "power_int (2::real) 53 \<le> power_int 2 (float_exponent x)"
      by (intro power_int_increasing) simp_all
    then have big: "(2::real) ^ 53 \<le> power_int 2 (float_exponent x)" by simp
    have "power_int 2 (float_exponent x) \<le> x" using float_exponent_ge1(2) [OF x1] xa by simp
    from float_round_lower [of "2 ^ 52" x] this
    have "power_int 2 (float_exponent x) \<le> float_round x" unfolding float_ulp_big by simp
    then show ?thesis using big assms(2) by linarith
  qed
qed

lemma float_round_le_one:
  assumes "x \<le> 1"
  shows "float_round x \<le> 1"
proof (cases "x < 0")
  case True
  from float_round_upper [of x 0] True show ?thesis by simp
next
  case False
  then have "\<bar>x\<bar> < 2" using assms by simp
  then have e: "float_exponent x \<le> 52" using float_exponent_lt2 [of x] by simp
  from float_round_upper [of x "1 * 2 ^ nat (52 - float_exponent x)"]
  show ?thesis using assms unfolding float_ulp_int [OF e] by simp
qed

lemma float_round_int:
  assumes "\<bar>n\<bar> < 2 ^ 53"
  shows "float_round (of_int n) = of_int n"
proof (cases "n = 0")
  case True
  then show ?thesis by (simp add: float_round_def round_half_even_def)
next
  case False
  then have x1: "1 \<le> \<bar>real_of_int n\<bar>" by simp
  have e: "float_exponent (of_int n) \<le> 52"
  proof (rule ccontr)
    assume "\<not> float_exponent (real_of_int n) \<le> 52"
    then have "53 \<le> float_exponent (real_of_int n)" by simp
    then have "power_int (2::real) 53 \<le> power_int 2 (float_exponent (real_of_int n))"
      by (intro power_int_increasing) simp_all
    then have "(2::real) ^ 53 \<le> \<bar>real_of_int n\<bar>"
      using float_exponent_ge1(2) [OF x1] by simp
    moreover have "\<bar>real_of_int n\<bar> < 2 ^ 53"
      using assms by (metis of_int_abs of_int_less_numeral_power_cancel_iff)
    ultimately show False by simp
  qed
  show ?thesis
    by (rule float_round_exact [of _ "n * 2 ^ nat (52 - float_exponent (of_int n))"])
      (simp only: float_ulp_int [OF e])
qed

lemma old_pruned:
  assumes "0 < w" and "real_of_int w \<le> 2 ^ 53" and "of_int w \<le> a - b"
  shows "\<not> float_less_int (float_sub a b) w"
proof -
  have "of_int w \<le> float_round (a - b)" using float_round_ge_int [OF assms] .
  then show ?thesis using assms(1)
    by (auto simp: float_less_int_def float_sub_def Let_def)
qed

lemma recent_kept:
  assumes "a - b \<le> 1" and "1 < w"
  shows "float_less_int (float_sub a b) w"
proof -
  have "float_round (a - b) \<le> 1" using float_round_le_one [OF assms(1)] .
  then show ?thesis using assms(2)
    by (auto simp: float_less_int_def float_sub_def Let_def)
qed

lemma float_sub_int:
  assumes "\<bar>m - n\<bar> < 2 ^ 53"
  shows "float_sub (of_int m) (of_int n) = Finite (of_int (m - n))"
proof -
  have r: "float_round (of_int m - of_int n) = of_int (m - n)"
    using float_round_int [OF assms] by simp
  have "\<bar>real_of_int (m - n)\<bar> < 2 ^ 53"
    using assms by (metis of_int_abs of_int_less_numeral_power_cancel_iff)
  then have "\<bar>real_of_int (m - n)\<bar> < 2 ^ 1024"
    by (rule less_trans) simp
  then show ?thesis unfolding float_sub_def Let_def r by simp
qed

lemma binade_bounds:
  "power_int 2 (- int k) \<le> a \<Longrightarrow> a < power_int 2 (int k + 1) \<Longrightarrow>
     power_int 2 (binade k a) \<le> a \<and> a < 2 * power_int 2 (binade k a)"
proof (induction k arbitrary: a)
  case 0
  then show ?case by simp
next
  case (Suc k)
  have up: "power_int (2::real) (int (Suc k) + 1) = 2 * power_int 2 (int k + 1)"
    by (simp add: power_int_add)
  have dn: "power_int (2::real) (- int k) = 2 * power_int 2 (- int (Suc k))"
  proof -
    have "power_int (2::real) (- int k) = power_int 2 (1 + (- int (Suc k)))" by simp
    also have "\<dots> = power_int 2 1 * power_int 2 (- int (Suc k))"
      by (subst power_int_add) simp_all
    finally show ?thesis by simp
  qed
  have pos: "0 < power_int (2::real) (- int k)" by simp
  have "(1::real) \<le> 2 ^ k" by simp
  then have le1: "power_int (2::real) (- int k) \<le> 1"
    by (simp add: power_int_minus field_simps)
  show ?case
  proof (cases "2 \<le> a")
    case True
    have "power_int 2 (- int k) \<le> a / 2" using True le1 by simp
    moreover have "a / 2 < power_int 2 (int k + 1)" using Suc.prems(2) up by simp
    ultimately have "power_int 2 (binade k (a / 2)) \<le> a / 2 \<and> a / 2 < 2 * power_int 2 (binade k (a / 2))"
      by (rule Suc.IH)
    moreover have "power_int (2::real) (binade k (a / 2) + 1) = power_int 2 (binade k (a / 2)) * 2"
      by (simp add: power_int_add)
    ultimately show ?thesis using True by simp
  next
    case False
    show ?thesis
    proof (cases "a < 1")
      case True
      have "power_int 2 (- int k) \<le> a * 2" using Suc.prems(1) dn by simp
      moreover have "a * 2 < power_int 2 (int k + 1)"
      proof -
        have "(1::real) \<le> power_int 2 (int k)" by (rule one_le_power_int) simp_all
        then have "(2::real) \<le> power_int 2 (int k + 1)" by (simp add: power_int_add)
        then show ?thesis using True by simp
      qed
      ultimately have ih: "power_int 2 (binade k (a * 2)) \<le> a * 2 \<and> a * 2 < 2 * power_int 2 (binade k (a * 2))"
        by (rule Suc.IH)
      have "power_int (2::real) (binade k (a * 2)) = power_int 2 (1 + (binade k (a * 2) - 1))" by simp
      also have "\<dots> = power_int 2 1 * power_int 2 (binade k (a * 2) - 1)"
        by (subst power_int_add) simp_all
      finally have "power_int (2::real) (binade k (a * 2)) = 2 * power_int 2 (binade k (a * 2) - 1)" by simp
      then show ?thesis using ih True False by simp
    next
      case False
      then show ?thesis using \<open>\<not> 2 \<le> a\<close> by simp
    qed
  qed
qed

lemma exponent_unique:
  assumes "power_int 2 e \<le> (a::real)" "a < 2 * power_int 2 e"
    and "power_int 2 e' \<le> a" "a < 2 * power_int 2 e'"
  shows "e = e'"
proof -
  have two: "2 * power_int (2::real) n = power_int 2 (n + 1)" for n
    by (simp add: power_int_add)
  have "power_int (2::real) e < power_int 2 (e' + 1)" using assms(1,4) two by simp
  then have 1: "e < e' + 1"
    using power_int_increasing [of "e' + 1" e "2::real"] by force
  have "power_int (2::real) e' < power_int 2 (e + 1)" using assms(3,2) two by simp
  then have 2: "e' < e + 1"
    using power_int_increasing [of "e + 1" e' "2::real"] by force
  from 1 2 show ?thesis by simp
qed

lemma float_exponent_eq:
  assumes "power_int 2 e \<le> \<bar>x\<bar>" and "\<bar>x\<bar> < 2 * power_int 2 e"
    and "- 1022 \<le> e" and "e \<le> 2100"
  shows "float_exponent x = e"
proof -
  have "power_int (2::real) (- int 2100) \<le> power_int 2 e"
    using assms(3) by (intro power_int_increasing) simp_all
  then have lo: "power_int 2 (- int 2100) \<le> \<bar>x\<bar>" using assms(1) by linarith
  have "power_int (2::real) (e + 1) \<le> power_int 2 (int 2100 + 1)"
    using assms(4) by (intro power_int_increasing) simp_all
  moreover have "2 * power_int (2::real) e = power_int 2 (e + 1)" by (simp add: power_int_add)
  ultimately have hi: "\<bar>x\<bar> < power_int 2 (int 2100 + 1)" using assms(2) by linarith
  from binade_bounds [OF lo hi]
  have "binade 2100 \<bar>x\<bar> = e" using exponent_unique assms(1,2) by blast
  then show ?thesis using assms(3) by (simp add: float_exponent_def)
qed

lemma round_half_even_near:
  assumes "of_int m - 1 / 2 < q" and "q < of_int m + 1 / 2"
  shows "round_half_even q = m"
proof (cases "q < of_int m")
  case True
  then have "\<lfloor>q\<rfloor> = m - 1" using assms by (intro floor_unique) simp_all
  then show ?thesis using assms True by (simp add: round_half_even_def Let_def)
next
  case False
  then have "\<lfloor>q\<rfloor> = m" using assms by (intro floor_unique) simp_all
  then show ?thesis using assms False by (simp add: round_half_even_def Let_def)
qed

lemma float_round_just_below_60: "float_round (60 - 1 / 2 ^ 70) = 60"
proof -
  let ?x = "60 - 1 / 2 ^ 70 :: real"
  have e: "float_exponent ?x = 5"
    by (rule float_exponent_eq) simp_all
  have u: "float_ulp ?x = 1 / 2 ^ 47"
    unfolding float_ulp_def e by (simp add: power_int_minus field_simps)
  have "round_half_even (?x / float_ulp ?x) = 60 * 2 ^ 47"
    unfolding u by (rule round_half_even_near) simp_all
  then show ?thesis unfolding float_round_def u by simp
qed

section \<open>The rate limiter\<close>

lemma is_allowed_recorded:
  "is_allowed now i limit window reqs =
     (let kept = filter (\<lambda>t. float_less_int (float_sub now t) window) (recorded reqs i)
      in if int (length kept) < limit
         then (True, reqs(i \<mapsto> kept @ [now]))
         else (False, reqs(i \<mapsto> kept)))"
  by (cases "reqs i") (simp_all add: is_allowed_def recorded_def Let_def dom_def)

lemma recorded_upd: "recorded (reqs(i \<mapsto> ts)) j = (if j = i then ts else recorded reqs j)"
  by (simp add: recorded_def)

lemma is_allowed_fst:
  "fst (is_allowed now i limit window reqs) =
     (int (length (filter (\<lambda>t. float_less_int (float_sub now t) window) (recorded reqs i))) < limit)"
  by (simp add: is_allowed_recorded Let_def)

lemma is_allowed_snd:
  "recorded (snd (is_allowed now i limit window reqs)) j =
     (if j \<noteq> i then recorded reqs j
      else if fst (is_allowed now i limit window reqs)
      then filter (\<lambda>t. float_less_int (float_sub now t) window) (recorded reqs i) @ [now]
      else filter (\<lambda>t. float_less_int (float_sub now t) window) (recorded reqs i))"
  by (simp add: is_allowed_recorded Let_def recorded_upd)

lemma is_allowed_seq_Cons:
  "fst (is_allowed_seq (now # later) i limit window reqs) =
     fst (is_allowed now i limit window reqs) #
     fst (is_allowed_seq later i limit window (snd (is_allowed now i limit window reqs)))"
  by (simp add: Let_def split: prod.splits)

lemma none_old_left:
  assumes "0 < window" and "window \<le> 2 ^ 53"
    and "t \<in> set (recorded (snd (is_allowed now i limit window reqs)) i)"
  shows "now - t < real_of_int window"
proof (rule ccontr)
  assume "\<not> now - t < real_of_int window"
  then have old: "real_of_int window \<le> now - t" by simp
  have "real_of_int window \<le> real_of_int (2 ^ 53)" using assms(2) by (simp only: of_int_le_iff)
  then have "real_of_int window \<le> 2 ^ 53" by simp
  from old_pruned [OF assms(1) this old]
  have "t \<notin> set (filter (\<lambda>t. float_less_int (float_sub now t) window) (recorded reqs i))"
    by simp
  moreover have "t \<noteq> now" using old assms(1) by auto
  ultimately show False using assms(3) by (auto simp: is_allowed_snd split: if_splits)
qed

lemma burst_then_wait:
  assumes fresh: "recorded reqs i = []"
    and ord: "t1 \<le> t2" "t2 \<le> t3" "t3 \<le> t4" "t4 < t1 + 1"
    and wait: "t1 + 60 \<le> t5"
  shows "fst (is_allowed_seq [t1, t2, t3, t4, t5] i 3 60 reqs) = [True, True, True, False, True]"
proof -
  define r1 where "r1 = snd (is_allowed t1 i 3 60 reqs)"
  define r2 where "r2 = snd (is_allowed t2 i 3 60 r1)"
  define r3 where "r3 = snd (is_allowed t3 i 3 60 r2)"
  define r4 where "r4 = snd (is_allowed t4 i 3 60 r3)"
  have k: "float_less_int (float_sub t2 t1) 60" "float_less_int (float_sub t3 t1) 60"
    "float_less_int (float_sub t3 t2) 60" "float_less_int (float_sub t4 t1) 60"
    "float_less_int (float_sub t4 t2) 60" "float_less_int (float_sub t4 t3) 60"
    using ord by (simp_all add: recent_kept)
  have p: "\<not> float_less_int (float_sub t5 t1) 60"
    using wait by (intro old_pruned) simp_all
  have a1: "fst (is_allowed t1 i 3 60 reqs)" by (simp add: is_allowed_fst fresh)
  have c1: "recorded r1 i = [t1]" unfolding r1_def by (simp add: is_allowed_snd a1 fresh)
  have a2: "fst (is_allowed t2 i 3 60 r1)" by (simp add: is_allowed_fst c1)
  have c2: "recorded r2 i = [t1, t2]"
    unfolding r2_def using k by (simp add: is_allowed_snd a2 c1)
  have a3: "fst (is_allowed t3 i 3 60 r2)" by (simp add: is_allowed_fst c2)
  have c3: "recorded r3 i = [t1, t2, t3]"
    unfolding r3_def using k by (simp add: is_allowed_snd a3 c2)
  have a4: "\<not> fst (is_allowed t4 i 3 60 r3)" using k by (simp add: is_allowed_fst c3)
  have c4: "recorded r4 i = [t1, t2, t3]"
    unfolding r4_def using k by (simp add: is_allowed_snd a4 c3)
  have a5: "fst (is_allowed t5 i 3 60 r4)" using p by (simp add: is_allowed_fst c4)
  show ?thesis
    using a1 a2 a3 a4 a5
    by (simp add: is_allowed_seq_Cons r1_def [symmetric] r2_def [symmetric]
        r3_def [symmetric] r4_def [symmetric] del: is_allowed_seq.simps(2))
qed

lemma float_sub_points:
  "float_sub 100 10 = Finite 90" "float_sub 100 40 = Finite 60"
  "float_sub 100 50 = Finite 50" "float_sub 100 70 = Finite 30"
  using float_sub_int [of 100 10] float_sub_int [of 100 40]
    float_sub_int [of 100 50] float_sub_int [of 100 70]
  by simp_all

lemma float_sub_just_below_60: "float_sub 60 (1 / 2 ^ 70) = Finite 60"
  unfolding float_sub_def Let_def float_round_just_below_60 by simp

text \<open>
  C3, as the code has it. A call keeps, of the timestamps recorded for the identifier,
  those whose age \<open>now - t\<close>, taken in float arithmetic, is below the window; when fewer
  than \<open>limit\<close> are kept it records \<open>now\<close> and allows the call, otherwise it denies the call
  and records nothing. So a timestamp is pruned as soon as its age reaches the window, not
  only when it is older: with a positive window of at most 2^53 seconds, every timestamp
  left after the call has an age below the window. With limit 3 and window 60, for an
  identifier with nothing recorded, three calls within one second are allowed, a fourth
  within that second is denied, and a call 60 seconds or more after the first is allowed.
\<close>

theorem rate_limiter_allow:
  "is_allowed now i limit window reqs =
     (let kept = filter (\<lambda>t. float_less_int (float_sub now t) window) (recorded reqs i)
      in if int (length kept) < limit
         then (True, reqs(i \<mapsto> kept @ [now]))
         else (False, reqs(i \<mapsto> kept))) \<and>
   (0 < window \<and> window \<le> 2 ^ 53 \<longrightarrow>
      (\<forall>t \<in> set (recorded (snd (is_allowed now i limit window reqs)) i).
          now - t < real_of_int window)) \<and>
   (recorded reqs i = [] \<and> t1 \<le> t2 \<and> t2 \<le> t3 \<and> t3 \<le> t4 \<and> t4 < t1 + 1 \<and> t1 + 60 \<le> t5 \<longrightarrow>
      fst (is_allowed_seq [t1, t2, t3, t4, t5] i 3 60 reqs) = [True, True, True, False, True])"
  using is_allowed_recorded none_old_left burst_then_wait by blast

theorem rate_limiter_allow_witness:
  "fst (is_allowed_seq [0, 0.25, 0.5, 0.75, 60] ''10.0.0.7'' 3 60 new_limiter)
     = [True, True, True, False, True] \<and>
   is_allowed 100 ''10.0.0.7'' 3 60 (new_limiter(''10.0.0.7'' \<mapsto> [10, 40, 50, 70]))
     = (True, new_limiter(''10.0.0.7'' \<mapsto> [50, 70, 100])) \<and>
   is_allowed 100 ''10.0.0.7'' 2 60 (new_limiter(''10.0.0.7'' \<mapsto> [10, 40, 50, 70]))
     = (False, new_limiter(''10.0.0.7'' \<mapsto> [50, 70])) \<and>
   is_allowed 60 ''10.0.0.7'' 1 60 (new_limiter(''10.0.0.7'' \<mapsto> [1 / 2 ^ 70]))
     = (True, new_limiter(''10.0.0.7'' \<mapsto> [60]))"
proof -
  let ?i = "''10.0.0.7''"
  let ?r = "new_limiter(?i \<mapsto> [10, 40, 50, 70])"
  let ?s = "new_limiter(?i \<mapsto> [1 / 2 ^ 70])"
  have fresh: "recorded new_limiter ?i = []" by (simp add: recorded_def new_limiter_def)
  have rec: "recorded ?r ?i = [10, 40, 50, 70]" "recorded ?s ?i = [1 / 2 ^ 70]"
    by (simp_all add: recorded_def)
  have 1: "fst (is_allowed_seq [0, 0.25, 0.5, 0.75, 60] ?i 3 60 new_limiter)
      = [True, True, True, False, True]"
    using rate_limiter_allow [of 0 ?i 3 60 new_limiter 0 "0.25" "0.5" "0.75" 60,
        THEN conjunct2, THEN conjunct2] fresh
    by (simp del: is_allowed_seq.simps)
  have 2: "is_allowed 100 ?i 3 60 ?r = (True, new_limiter(?i \<mapsto> [50, 70, 100]))"
    using rate_limiter_allow [of 100 ?i 3 60 ?r, THEN conjunct1]
    by (simp add: rec Let_def float_sub_points float_less_int_def)
  have 3: "is_allowed 100 ?i 2 60 ?r = (False, new_limiter(?i \<mapsto> [50, 70]))"
    using rate_limiter_allow [of 100 ?i 2 60 ?r, THEN conjunct1]
    by (simp add: rec Let_def float_sub_points float_less_int_def)
  have tiny: "float_sub 60 (1 / 1180591620717411303424) = Finite 60"
    "recorded (new_limiter(?i \<mapsto> [1 / 1180591620717411303424])) ?i
       = [1 / 1180591620717411303424]"
    using float_sub_just_below_60 by (simp_all add: recorded_def)
  have 4: "is_allowed 60 ?i 1 60 ?s = (True, new_limiter(?i \<mapsto> [60]))"
    using rate_limiter_allow [of 60 ?i 1 60 ?s, THEN conjunct1]
    by (simp add: tiny Let_def float_less_int_def)
  from 1 2 3 4 show ?thesis by blast
qed

text \<open>
  The boundary on which the code and the wording of the specification part: a timestamp
  recorded at 40 is, at 100 and with a window of 60, not older than \<open>now - window\<close>, so
  \<open>allow_spec\<close> keeps it and denies a call with limit 1; the code prunes it, allows the
  call and records 100.
\<close>

theorem rate_limiter_boundary:
  "is_allowed 100 ''10.0.0.7'' 1 60 (new_limiter(''10.0.0.7'' \<mapsto> [40]))
     = (True, new_limiter(''10.0.0.7'' \<mapsto> [100])) \<and>
   allow_spec 100 ''10.0.0.7'' 1 60 (new_limiter(''10.0.0.7'' \<mapsto> [40]))
     = (False, new_limiter(''10.0.0.7'' \<mapsto> [40]))"
  by (simp add: is_allowed_recorded allow_spec_def recorded_def new_limiter_def Let_def
      float_sub_points float_less_int_def)

section \<open>The bin store\<close>

lemma snd_store_bin_data:
  "snd (store_bin_data ts d bs) =
     bs(bin_id d \<mapsto>
        \<lparr>rec_bin_id = bin_id d, rec_organic_level = organic_level d,
         rec_recyclable_level = recyclable_level d, rec_hazardous_level = hazardous_level d,
         last_updated = ts, status = calculate_bin_status d, alerts = generate_alerts d\<rparr>)"
  by (simp add: store_bin_data_def Let_def)

lemma dom_store_bin_data: "dom (snd (store_bin_data ts d bs)) = insert (bin_id d) (dom bs)"
  by (simp add: snd_store_bin_data)

lemma dom_store_all: "dom (store_all rs bs) = dom bs \<union> (bin_id \<circ> snd) ` set rs"
proof (induction rs arbitrary: bs)
  case Nil
  show ?case by simp
next
  case (Cons r rs)
  obtain ts d where r: "r = (ts, d)" by (cases r)
  show ?case by (simp add: r Cons.IH dom_store_bin_data)
qed

text \<open>
  C7. A store succeeds and leaves, under the reading's identifier, the record derived from
  that reading; records of other identifiers are untouched. Storing a second reading for
  the same identifier gives the dictionary that storing the second reading alone gives, so
  nothing of the first is kept. After any run of stores into an empty store, the number of
  records of \<open>get_all_bins\<close> is the number of distinct identifiers stored.
\<close>

theorem store_overwrites:
  "fst (store_bin_data ts d bs) \<and>
   get_bin_status (bin_id d) (snd (store_bin_data ts d bs)) =
     Some \<lparr>rec_bin_id = bin_id d, rec_organic_level = organic_level d,
           rec_recyclable_level = recyclable_level d, rec_hazardous_level = hazardous_level d,
           last_updated = ts, status = calculate_bin_status d, alerts = generate_alerts d\<rparr> \<and>
   (b \<noteq> bin_id d \<longrightarrow> get_bin_status b (snd (store_bin_data ts d bs)) = get_bin_status b bs) \<and>
   (bin_id d' = bin_id d \<longrightarrow>
      snd (store_bin_data ts d (snd (store_bin_data ts' d' bs))) = snd (store_bin_data ts d bs)) \<and>
   dom (get_all_bins (store_all rs bs)) = dom bs \<union> (bin_id \<circ> snd) ` set rs \<and>
   card (dom (get_all_bins (store_all rs new_database))) = card ((bin_id \<circ> snd) ` set rs)"
proof -
  have 1: "fst (store_bin_data ts d bs)" by (simp add: store_bin_data_def Let_def)
  have 2: "get_bin_status (bin_id d) (snd (store_bin_data ts d bs)) =
     Some \<lparr>rec_bin_id = bin_id d, rec_organic_level = organic_level d,
           rec_recyclable_level = recyclable_level d, rec_hazardous_level = hazardous_level d,
           last_updated = ts, status = calculate_bin_status d, alerts = generate_alerts d\<rparr>"
    by (simp add: get_bin_status_def snd_store_bin_data)
  have 3: "b \<noteq> bin_id d \<longrightarrow> get_bin_status b (snd (store_bin_data ts d bs)) = get_bin_status b bs"
    by (simp add: get_bin_status_def snd_store_bin_data)
  have 4: "bin_id d' = bin_id d \<longrightarrow>
      snd (store_bin_data ts d (snd (store_bin_data ts' d' bs))) = snd (store_bin_data ts d bs)"
    by (simp add: snd_store_bin_data)
  have 5: "dom (get_all_bins (store_all rs bs)) = dom bs \<union> (bin_id \<circ> snd) ` set rs"
    by (simp add: get_all_bins_def dom_store_all)
  have 6: "card (dom (get_all_bins (store_all rs new_database))) = card ((bin_id \<circ> snd) ` set rs)"
    by (simp add: get_all_bins_def dom_store_all new_database_def)
  from 1 2 3 4 5 6 show ?thesis by blast
qed

theorem store_overwrites_witness:
  "snd (store_bin_data 2 (reading ''BIN-001'' (whole 20) (whole 30) (whole 95))
         (snd (store_bin_data 1 (reading ''BIN-001'' (whole 85) (whole 10) (whole 10)) new_database)))
     = snd (store_bin_data 2 (reading ''BIN-001'' (whole 20) (whole 30) (whole 95)) new_database) \<and>
   get_bin_status ''BIN-002''
     (snd (store_bin_data 2 (reading ''BIN-001'' (whole 20) (whole 30) (whole 95)) new_database))
     = None \<and>
   card (dom (get_all_bins (store_all
      [(1, reading ''BIN-001'' (whole 85) (whole 10) (whole 10)),
       (2, reading ''BIN-001'' (whole 20) (whole 30) (whole 95)),
       (3, reading ''BIN-002'' (whole 20) (whole 30) (whole 40))]
      new_database))) = 2"
  using store_overwrites [of 2 "reading ''BIN-001'' (whole 20) (whole 30) (whole 95)"
      new_database "''BIN-002''"
      "reading ''BIN-001'' (whole 85) (whole 10) (whole 10)" 1
      "[(1, reading ''BIN-001'' (whole 85) (whole 10) (whole 10)),
        (2, reading ''BIN-001'' (whole 20) (whole 30) (whole 95)),
        (3, reading ''BIN-002'' (whole 20) (whole 30) (whole 40))]"]
  by (simp add: reading_def new_database_def get_bin_status_def get_all_bins_def
      store_bin_data_def Let_def)

section \<open>Base64 and UTF-8\<close>

lemma byte_val_less: "byte_val c < 256"
  by (simp add: byte_val_def)

lemma byte_of_val: "byte_of (byte_val c) = c"
  by (simp add: byte_of_def byte_val_def)

lemma byte_val_of: "byte_val (byte_of n) = n mod 256"
  by (simp add: byte_of_def byte_val_def)

lemma byte_val_inj: "(c = d) = (byte_val c = byte_val d)"
  by (auto simp: byte_val_def)

lemma byte_val_literals:
  "byte_val (CHR ''='') = 61" "byte_val (CHR ''.'') = 46" "byte_val (CHR ''-'') = 45"
  "byte_val (CHR ''_'') = 95" "byte_val (CHR ''+'') = 43" "byte_val (CHR ''/'') = 47"
  by (simp_all add: byte_val_def)

lemma byte_val_b64_char:
  "n < 64 \<Longrightarrow> byte_val (b64_char n) =
     (if n < 26 then 65 + n else if n < 52 then 71 + n else if n < 62 then n - 4
      else if n = 62 then 45 else 95)"
  by (simp add: b64_char_def byte_val_of byte_val_literals)

lemma b64_char_facts:
  assumes "n < 64"
  shows "b64_value (urlsafe_translate (b64_char n)) = Some n"
    and "b64_char n \<noteq> CHR ''=''" and "b64_char n \<noteq> CHR ''.''" and "is_ascii (b64_char n)"
    and "urlsafe_translate (b64_char n) \<noteq> CHR ''=''"
  using assms
  by (auto simp: b64_value_def urlsafe_translate_def is_ascii_def byte_val_inj
      byte_val_b64_char byte_val_literals Let_def split: if_splits)


lemma b64_encode_body:
  "\<exists>k. urlsafe_b64encode bs = b64_body bs @ replicate k (CHR ''='')"
proof (induction bs rule: b64_body.induct)
  case 1
  show ?case by simp
next
  case (2 a)
  have "urlsafe_b64encode [a] = b64_body [a] @ replicate 2 (CHR ''='')"
    by (simp add: numeral_2_eq_2)
  then show ?case by blast
next
  case (3 a b)
  have "urlsafe_b64encode [a, b] = b64_body [a, b] @ replicate 1 (CHR ''='')" by simp
  then show ?case by blast
next
  case (4 a b c rest)
  then obtain k where "urlsafe_b64encode rest = b64_body rest @ replicate k (CHR ''='')" by blast
  then have "urlsafe_b64encode (a # b # c # rest) = b64_body (a # b # c # rest) @ replicate k (CHR ''='')"
    by simp
  then show ?case by blast
qed

lemma sextets:
  "byte_val a div 4 < 64" "byte_val a mod 4 * 16 < 64"
  "byte_val a mod 4 * 16 + byte_val b div 16 < 64"
  "byte_val b mod 16 * 4 < 64" "byte_val b mod 16 * 4 + byte_val c div 64 < 64"
  "byte_val c mod 64 < 64"
  using byte_val_less [of a] byte_val_less [of b] byte_val_less [of c] by simp_all

lemma b64_body_chars:
  "c \<in> set (b64_body bs) \<Longrightarrow> c \<noteq> CHR ''='' \<and> c \<noteq> CHR ''.'' \<and> is_ascii c"
  by (induction bs rule: b64_body.induct) (auto simp: b64_char_facts sextets)

lemma rstrip_replicate:
  assumes "c \<notin> set xs"
  shows "rstrip c (xs @ replicate k c) = xs"
proof -
  have "dropWhile (\<lambda>x. x = c) (replicate k c @ rev xs) = rev xs"
    using assms by (induction k) (auto simp: dropWhile_append3 hd_rev intro: dropWhile_eq_self_iff [THEN iffD2] split: list.splits)
  then show ?thesis by (simp add: rstrip_def)
qed


lemma rstrip_b64encode: "rstrip (CHR ''='') (urlsafe_b64encode bs) = b64_body bs"
proof -
  obtain k where k: "urlsafe_b64encode bs = b64_body bs @ replicate k (CHR ''='')"
    using b64_encode_body by blast
  have "CHR ''='' \<notin> set (b64_body bs)" using b64_body_chars by blast
  then show ?thesis unfolding k by (rule rstrip_replicate)
qed


lemma byte_of_eq: "(byte_of n = x) = (n mod 256 = byte_val x)"
  by (metis byte_of_val byte_val_of byte_of_def char_of_mod_256)

lemma split_bytes:
  "byte_of (byte_val a div 4 * 4 + byte_val a mod 4 * 16 div 16) = a"
  "byte_of (byte_val a div 4 * 4 + (byte_val a mod 4 * 16 + byte_val b div 16) div 16) = a"
  "byte_of ((byte_val a mod 4 * 16 + byte_val b div 16) mod 16 * 16 + byte_val b mod 16 * 4 div 4) = b"
  "byte_of ((byte_val a mod 4 * 16 + byte_val b div 16) mod 16 * 16
            + (byte_val b mod 16 * 4 + byte_val c div 64) div 4) = b"
  "byte_of ((byte_val b mod 16 * 4 + byte_val c div 64) mod 4 * 64 + byte_val c mod 64) = c"
proof -
  have a: "byte_val a div 4 * 4 + byte_val a mod 4 * 16 div 16 = byte_val a" by simp
  have b: "byte_val b div 16 < 16" using byte_val_less [of b] by simp
  have c: "byte_val c div 64 < 4" using byte_val_less [of c] by simp
  have a2: "byte_val a div 4 * 4 + (byte_val a mod 4 * 16 + byte_val b div 16) div 16 = byte_val a"
    using b by simp
  have b1: "(byte_val a mod 4 * 16 + byte_val b div 16) mod 16 * 16 + byte_val b mod 16 * 4 div 4
      = byte_val b"
    using b by (simp add: mod_simps)
  have b2: "(byte_val a mod 4 * 16 + byte_val b div 16) mod 16 * 16
            + (byte_val b mod 16 * 4 + byte_val c div 64) div 4 = byte_val b"
    using b c by (simp add: mod_simps)
  have c1: "(byte_val b mod 16 * 4 + byte_val c div 64) mod 4 * 64 + byte_val c mod 64 = byte_val c"
    using c by (simp add: mod_simps)
  show "byte_of (byte_val a div 4 * 4 + byte_val a mod 4 * 16 div 16) = a"
    "byte_of (byte_val a div 4 * 4 + (byte_val a mod 4 * 16 + byte_val b div 16) div 16) = a"
    "byte_of ((byte_val a mod 4 * 16 + byte_val b div 16) mod 16 * 16 + byte_val b mod 16 * 4 div 4) = b"
    "byte_of ((byte_val a mod 4 * 16 + byte_val b div 16) mod 16 * 16
            + (byte_val b mod 16 * 4 + byte_val c div 64) div 4) = b"
    "byte_of ((byte_val b mod 16 * 4 + byte_val c div 64) mod 4 * 64 + byte_val c mod 64) = c"
    by (simp_all only: a a2 b1 b2 c1 byte_of_val)
qed

lemma a2b_quad:
  assumes "b64_value c1 = Some v1" "c1 \<noteq> CHR ''=''" "b64_value c2 = Some v2" "c2 \<noteq> CHR ''=''"
    "b64_value c3 = Some v3" "c3 \<noteq> CHR ''=''" "b64_value c4 = Some v4" "c4 \<noteq> CHR ''=''"
  shows "a2b_base64 (c1 # c2 # c3 # c4 # rest) 0 0 0 =
    map_option (\<lambda>r. byte_of (v1 * 4 + v2 div 16) # byte_of (v2 mod 16 * 16 + v3 div 4)
                      # byte_of (v3 mod 4 * 64 + v4) # r) (a2b_base64 rest 0 0 0)"
  using assms by (simp add: option.map_comp comp_def)

lemma a2b_triple:
  assumes "b64_value c1 = Some v1" "c1 \<noteq> CHR ''=''" "b64_value c2 = Some v2" "c2 \<noteq> CHR ''=''"
    "b64_value c3 = Some v3" "c3 \<noteq> CHR ''=''"
  shows "a2b_base64 (c1 # c2 # c3 # ''=='') 0 0 0 =
    Some [byte_of (v1 * 4 + v2 div 16), byte_of (v2 mod 16 * 16 + v3 div 4)]"
  using assms by simp

lemma a2b_pair:
  assumes "b64_value c1 = Some v1" "c1 \<noteq> CHR ''=''" "b64_value c2 = Some v2" "c2 \<noteq> CHR ''=''"
  shows "a2b_base64 (c1 # c2 # ''=='') 0 0 0 = Some [byte_of (v1 * 4 + v2 div 16)]"
  using assms by simp

lemma translate_eq: "urlsafe_translate (CHR ''='') = CHR ''=''"
  by (simp add: urlsafe_translate_def)

lemma a2b_base64_body:
  "a2b_base64 (map urlsafe_translate (b64_body bs @ ''=='')) 0 0 0 = Some bs"
proof (induction bs rule: b64_body.induct)
  case 1
  show ?case by (simp add: translate_eq)
next
  case (2 a)
  have m: "map urlsafe_translate (b64_body [a] @ ''=='') =
      urlsafe_translate (b64_char (byte_val a div 4))
      # urlsafe_translate (b64_char (byte_val a mod 4 * 16)) # ''==''"
    by (simp add: translate_eq)
  have q: "a2b_base64 (urlsafe_translate (b64_char (byte_val a div 4))
      # urlsafe_translate (b64_char (byte_val a mod 4 * 16)) # ''=='') 0 0 0
      = Some [byte_of (byte_val a div 4 * 4 + byte_val a mod 4 * 16 div 16)]"
    by (rule a2b_pair) (simp_all add: b64_char_facts sextets)
  show ?case unfolding m q split_bytes ..
next
  case (3 a b)
  have m: "map urlsafe_translate (b64_body [a, b] @ ''=='') =
      urlsafe_translate (b64_char (byte_val a div 4))
      # urlsafe_translate (b64_char (byte_val a mod 4 * 16 + byte_val b div 16))
      # urlsafe_translate (b64_char (byte_val b mod 16 * 4)) # ''==''"
    by (simp add: translate_eq)
  have q: "a2b_base64 (urlsafe_translate (b64_char (byte_val a div 4))
      # urlsafe_translate (b64_char (byte_val a mod 4 * 16 + byte_val b div 16))
      # urlsafe_translate (b64_char (byte_val b mod 16 * 4)) # ''=='') 0 0 0
      = Some [byte_of (byte_val a div 4 * 4 + (byte_val a mod 4 * 16 + byte_val b div 16) div 16),
              byte_of ((byte_val a mod 4 * 16 + byte_val b div 16) mod 16 * 16
                       + byte_val b mod 16 * 4 div 4)]"
    by (rule a2b_triple) (simp_all add: b64_char_facts sextets)
  show ?case unfolding m q split_bytes ..
next
  case (4 a b c rest)
  have m: "map urlsafe_translate (b64_body (a # b # c # rest) @ ''=='') =
      urlsafe_translate (b64_char (byte_val a div 4))
      # urlsafe_translate (b64_char (byte_val a mod 4 * 16 + byte_val b div 16))
      # urlsafe_translate (b64_char (byte_val b mod 16 * 4 + byte_val c div 64))
      # urlsafe_translate (b64_char (byte_val c mod 64))
      # map urlsafe_translate (b64_body rest @ ''=='')"
    by simp
  have q: "a2b_base64 (urlsafe_translate (b64_char (byte_val a div 4))
      # urlsafe_translate (b64_char (byte_val a mod 4 * 16 + byte_val b div 16))
      # urlsafe_translate (b64_char (byte_val b mod 16 * 4 + byte_val c div 64))
      # urlsafe_translate (b64_char (byte_val c mod 64))
      # map urlsafe_translate (b64_body rest @ ''=='')) 0 0 0
      = map_option (\<lambda>r.
          byte_of (byte_val a div 4 * 4 + (byte_val a mod 4 * 16 + byte_val b div 16) div 16)
          # byte_of ((byte_val a mod 4 * 16 + byte_val b div 16) mod 16 * 16
                     + (byte_val b mod 16 * 4 + byte_val c div 64) div 4)
          # byte_of ((byte_val b mod 16 * 4 + byte_val c div 64) mod 4 * 64 + byte_val c mod 64)
          # r) (a2b_base64 (map urlsafe_translate (b64_body rest @ ''=='')) 0 0 0)"
    by (rule a2b_quad) (simp_all add: b64_char_facts sextets)
  show ?case unfolding m q split_bytes "4.IH" by simp
qed

lemma urlsafe_b64decode_encode:
  "urlsafe_b64decode (rstrip (CHR ''='') (urlsafe_b64encode bs) @ ''=='') = Some bs"
proof -
  have "list_all is_ascii (b64_body bs @ ''=='')"
    using b64_body_chars by (auto simp: list_all_iff is_ascii_def byte_val_def)
  then show ?thesis
    by (simp add: urlsafe_b64decode_def rstrip_b64encode a2b_base64_body del: map_append)
qed

lemma utf8_decode_two:
  assumes "\<not> byte_val c < 128"
  shows "utf8_decode (byte_of (192 + byte_val c div 64) # byte_of (128 + byte_val c mod 64) # bs)
         = map_option ((#) c) (utf8_decode bs)"
proof -
  define hi where "hi = 192 + byte_val c div 64"
  define lo where "lo = 128 + byte_val c mod 64"
  have n: "128 \<le> byte_val c" "byte_val c < 256"
    using assms byte_val_less [of c] by simp_all
  have hi: "hi = 194 \<or> hi = 195" unfolding hi_def using n by arith
  have lo: "128 \<le> lo" "lo < 192" unfolding lo_def by simp_all
  have bhi: "byte_val (byte_of hi) = hi" using hi by (auto simp: byte_val_of)
  have blo: "byte_val (byte_of lo) = lo" using lo by (simp add: byte_val_of)
  have "(hi - 192) * 64 + (lo - 128) = byte_val c" unfolding hi_def lo_def by simp
  then have res: "byte_of ((hi - 192) * 64 + (lo - 128)) = c" by (simp add: byte_of_val)
  have res1: "hi = 194 \<Longrightarrow> byte_of lo = c" using res lo by auto
  have res2: "hi = 195 \<Longrightarrow> byte_of (64 + lo) = c" using res lo by auto
  have "utf8_decode (byte_of hi # byte_of lo # bs) = map_option ((#) c) (utf8_decode bs)"
    using hi lo by (auto simp: bhi blo res1 res2)
  then show ?thesis unfolding hi_def lo_def .
qed

lemma utf8_decode_encode: "utf8_decode (utf8_encode s) = Some s"
proof (induction s)
  case Nil
  show ?case by (simp add: utf8_encode_def)
next
  case (Cons c s)
  have enc: "utf8_encode (c # s) =
      (if byte_val c < 128 then [c]
       else [byte_of (192 + byte_val c div 64), byte_of (128 + byte_val c mod 64)]) @ utf8_encode s"
    by (simp add: utf8_encode_def)
  show ?case
  proof (cases "byte_val c < 128")
    case True
    then show ?thesis by (simp add: enc Cons.IH)
  next
    case False
    then show ?thesis
      by (simp add: enc Cons.IH utf8_decode_two del: utf8_decode.simps)
  qed
qed

lemma split_on_none: "sep \<notin> set s \<Longrightarrow> split_on sep s = [s]"
  by (induction s) auto

lemma split_on_append: "sep \<notin> set s \<Longrightarrow> split_on sep (s @ sep # t) = s # split_on sep t"
  by (induction s) auto

lemma split_on_not_Nil: "split_on sep s \<noteq> []"
  by (induction s) (auto split: list.splits)

lemma length_split_on: "length (split_on sep s) = Suc (count_list s sep)"
proof (induction s)
  case Nil
  show ?case by simp
next
  case (Cons c s)
  then show ?case
    using split_on_not_Nil [of sep s] by (cases "split_on sep s") auto
qed


section \<open>Tokens\<close>

lemma length_hmac_digest: "digest32 H \<Longrightarrow> length (hmac_digest H key msg) = 32"
  by (simp add: digest32_def hmac_digest_def Let_def)

lemma digest32_sample: "digest32 (\<lambda>m. take 32 (m @ replicate 32 (CHR 0x00)))"
  by (auto simp: digest32_def)





lemma json_dumps_header: "\<exists>hj. json_dumps jwt_header = Some hj \<and> hj \<noteq> []"
  by (simp add: json_dumps_def jwt_header_def json_string_def)


lemma encode_Some:
  assumes "json_dumps jwt_header = Some hj" and "json_dumps p = Some pj"
  shows "encode H p k =
           b64_body (utf8_encode hj) @ ''.'' @ b64_body (utf8_encode pj) @ ''.'' @
           b64_body (hmac_digest H (utf8_encode k)
             (utf8_encode (b64_body (utf8_encode hj) @ ''.'' @ b64_body (utf8_encode pj))))"
  using assms by (simp add: encode_def Let_def rstrip_b64encode)

lemma b64_body_no_dot: "CHR ''.'' \<notin> set (b64_body bs)"
  using b64_body_chars by blast

lemma split_three:
  assumes "CHR ''.'' \<notin> set a" "CHR ''.'' \<notin> set b" "CHR ''.'' \<notin> set c"
  shows "split_on (CHR ''.'') (a @ ''.'' @ b @ ''.'' @ c) = [a, b, c]"
  using assms by (simp add: split_on_append split_on_none)

lemma compare_digest_ascii:
  assumes "list_all is_ascii a" "list_all is_ascii b"
  shows "compare_digest a b = Some (a = b)"
  using assms by (simp add: compare_digest_def)

lemma b64_body_ascii: "list_all is_ascii (b64_body bs)"
  using b64_body_chars by (auto simp: list_all_iff)

lemma b64decode_body: "urlsafe_b64decode (b64_body bs @ ''=='') = Some bs"
  using urlsafe_b64decode_encode [of bs] by (simp add: rstrip_b64encode)

lemma decode_segments:
  assumes "CHR ''.'' \<notin> set h" "CHR ''.'' \<notin> set pl" "CHR ''.'' \<notin> set sg"
  shows "decode H now (h @ ''.'' @ pl @ ''.'' @ sg) k =
     (case compare_digest sg (b64_body (hmac_digest H (utf8_encode k) (utf8_encode (h @ ''.'' @ pl)))) of
        None \<Rightarrow> Inl Library_error
      | Some False \<Rightarrow> Inl Invalid_signature
      | Some True \<Rightarrow>
          (case urlsafe_b64decode (pl @ ''=='') of
             None \<Rightarrow> Inl Library_error
           | Some payload_bytes \<Rightarrow>
               (case utf8_decode payload_bytes of
                  None \<Rightarrow> Inl Library_error
                | Some payload_json \<Rightarrow>
                    (case json_loads payload_json of
                       None \<Rightarrow> Inl Library_error
                     | Some payload \<Rightarrow> check_expiration now payload))))"
  unfolding decode_def split_three [OF assms] by (simp add: Let_def rstrip_b64encode)

lemma decode_encode:
  assumes "json_dumps p = Some pj"
  shows "decode H now (encode H p k) k =
     (case json_loads pj of None \<Rightarrow> Inl Library_error | Some v \<Rightarrow> check_expiration now v)"
proof -
  obtain hj where hj: "json_dumps jwt_header = Some hj" using json_dumps_header by blast
  show ?thesis
    unfolding encode_Some [OF hj assms]
    by (subst decode_segments)
      (simp_all add: b64_body_no_dot compare_digest_ascii b64_body_ascii b64decode_body
        utf8_decode_encode)
qed

lemma signature_segment_three:
  assumes "CHR ''.'' \<notin> set h" "CHR ''.'' \<notin> set pl" "CHR ''.'' \<notin> set sg"
  shows "signature_segment (h @ ''.'' @ pl @ ''.'' @ sg) = sg"
  unfolding signature_segment_def split_three [OF assms] by simp

lemma replace_three:
  assumes "CHR ''.'' \<notin> set h" "CHR ''.'' \<notin> set pl" "CHR ''.'' \<notin> set sg"
  shows "replace_signature_char (h @ ''.'' @ pl @ ''.'' @ sg) i c = h @ ''.'' @ pl @ ''.'' @ sg[i := c]"
proof -
  have "(h @ ''.'' @ pl @ ''.'' @ sg)[length h + 1 + length pl + 1 + i := c]
        = h @ ''.'' @ pl @ ''.'' @ sg[i := c]"
    by (simp add: list_update_append)
  then show ?thesis
    unfolding replace_signature_char_def signature_segment_three [OF assms] by simp
qed

lemma decode_bad_length:
  "length (split_on (CHR ''.'') token) \<noteq> 3 \<Longrightarrow> decode H now token k = Inl Invalid_token_format"
  by (simp add: decode_def Let_def)

lemma decode_tampered:
  assumes h: "CHR ''.'' \<notin> set h" and pl: "CHR ''.'' \<notin> set pl"
    and sg: "sg = b64_body (hmac_digest H (utf8_encode k) (utf8_encode (h @ ''.'' @ pl)))"
    and i: "i < length sg" and c: "c \<noteq> sg ! i"
  shows "decode H now (h @ ''.'' @ pl @ ''.'' @ sg[i := c]) k =
           Inl (if c = CHR ''.'' then Invalid_token_format
                else if is_ascii c then Invalid_signature else Library_error)"
proof (cases "c = CHR ''.''")
  case True
  have nd: "CHR ''.'' \<notin> set sg" unfolding sg by (rule b64_body_no_dot)
  have "sg[i := c] = take i sg @ c # drop (Suc i) sg" using i by (rule upd_conv_take_nth_drop)
  moreover have "CHR ''.'' \<notin> set (take i sg)" "CHR ''.'' \<notin> set (drop (Suc i) sg)"
    using nd by (auto dest: in_set_takeD in_set_dropD)
  ultimately have "count_list (h @ ''.'' @ pl @ ''.'' @ sg[i := c]) (CHR ''.'') = 3"
    using True h pl by (simp add: count_list_0_iff)
  then have "length (split_on (CHR ''.'') (h @ ''.'' @ pl @ ''.'' @ sg[i := c])) = 4"
    by (simp only: length_split_on)
  then have "decode H now (h @ ''.'' @ pl @ ''.'' @ sg[i := c]) k = Inl Invalid_token_format"
    by (intro decode_bad_length) simp
  then show ?thesis using True by simp
next
  case False
  have nd: "CHR ''.'' \<notin> set sg" unfolding sg by (rule b64_body_no_dot)
  have nd': "CHR ''.'' \<notin> set (sg[i := c])"
    using set_update_subset_insert [of sg i c] nd False by auto
  have "sg[i := c] ! i = c" using i by simp
  then have ne: "sg[i := c] \<noteq> sg" using c by auto
  have asc: "list_all is_ascii sg" unfolding sg by (rule b64_body_ascii)
  have mem: "c \<in> set (sg[i := c])" using i by (simp add: set_update_memI)
  show ?thesis
  proof (cases "is_ascii c")
    case True
    have "list_all is_ascii (sg[i := c])"
      using set_update_subset_insert [of sg i c] asc True by (auto simp: list_all_iff)
    then have "compare_digest (sg[i := c]) sg = Some False"
      using asc ne by (simp add: compare_digest_ascii)
    then show ?thesis
      using True False unfolding decode_segments [OF h pl nd'] sg [symmetric] by simp
  next
    case nasc: False
    have "\<not> list_all is_ascii (sg[i := c])" using mem nasc by (auto simp: list_all_iff)
    then have "compare_digest (sg[i := c]) sg = None" by (simp add: compare_digest_def)
    then show ?thesis
      using nasc False unfolding decode_segments [OF h pl nd'] sg [symmetric] by simp
  qed
qed

lemma length_b64_body: "length (b64_body bs) = (length bs * 4 + 2) div 3"
  by (induction bs rule: b64_body.induct) simp_all

lemma length_b64_body_32: "length bs = 32 \<Longrightarrow> length (b64_body bs) = 43"
  by (simp add: length_b64_body)

lemma encode_tampered:
  assumes "digest32 H" and "json_dumps p = Some pj" and "i < 43"
    and "c \<noteq> signature_segment (encode H p k) ! i"
  shows "decode H now (replace_signature_char (encode H p k) i c) k =
           Inl (if c = CHR ''.'' then Invalid_token_format
                else if is_ascii c then Invalid_signature else Library_error)"
proof -
  obtain hj where hj: "json_dumps jwt_header = Some hj" using json_dumps_header by blast
  let ?h = "b64_body (utf8_encode hj)" and ?pl = "b64_body (utf8_encode pj)"
  let ?sg = "b64_body (hmac_digest H (utf8_encode k) (utf8_encode (?h @ ''.'' @ ?pl)))"
  have e: "encode H p k = ?h @ ''.'' @ ?pl @ ''.'' @ ?sg" by (rule encode_Some [OF hj assms(2)])
  have len: "length ?sg = 43"
    by (rule length_b64_body_32) (rule length_hmac_digest [OF assms(1)])
  have seg: "signature_segment (encode H p k) = ?sg"
    unfolding e by (rule signature_segment_three) (rule b64_body_no_dot)+
  have rep: "replace_signature_char (encode H p k) i c = ?h @ ''.'' @ ?pl @ ''.'' @ ?sg[i := c]"
    unfolding e by (rule replace_three) (rule b64_body_no_dot)+
  show ?thesis
    unfolding rep
    by (rule decode_tampered) (use assms(3,4) len seg in \<open>simp_all add: b64_body_no_dot\<close>)
qed

lemma json_encode_serializable:
  "(json_encode v = None) = (\<not> serializable v)"
  and "(json_encode_list xs = None) = (\<not> serializable_list xs)"
  and "(json_encode_items kvs = None) = (\<not> serializable_items kvs)"
  by (induction v and xs and kvs rule: serializable_serializable_list_serializable_items.induct)
    (auto split: option.split)

lemma json_dumps_serializable: "(json_dumps v \<noteq> None) = serializable v"
  using json_encode_serializable(1) [of v] by (simp add: json_dumps_def)

lemma b64_char_url: "n < 64 \<Longrightarrow> is_b64url_char (b64_char n)"
  by (auto simp: is_b64url_char_def Let_def byte_val_b64_char byte_val_inj byte_val_literals)

lemma b64_body_url: "list_all is_b64url_char (b64_body bs)"
  by (induction bs rule: b64_body.induct) (simp_all add: b64_char_url sextets)







lemma signature_segment_encode:
  assumes "digest32 H" and "serializable p"
  shows "length (signature_segment (encode H p k)) = 43"
    and "list_all is_b64url_char (signature_segment (encode H p k))"
proof -
  obtain pj where pj: "json_dumps p = Some pj"
    using assms(2) json_dumps_serializable [of p] by auto
  obtain hj where hj: "json_dumps jwt_header = Some hj" using json_dumps_header by blast
  let ?h = "b64_body (utf8_encode hj)" and ?pl = "b64_body (utf8_encode pj)"
  let ?sg = "b64_body (hmac_digest H (utf8_encode k) (utf8_encode (?h @ ''.'' @ ?pl)))"
  have e: "encode H p k = ?h @ ''.'' @ ?pl @ ''.'' @ ?sg" by (rule encode_Some [OF hj pj])
  have seg: "signature_segment (encode H p k) = ?sg"
    unfolding e by (rule signature_segment_three) (rule b64_body_no_dot)+
  show "length (signature_segment (encode H p k)) = 43"
    unfolding seg by (rule length_b64_body_32) (rule length_hmac_digest [OF assms(1)])
  show "list_all is_b64url_char (signature_segment (encode H p k))"
    unfolding seg by (rule b64_body_url)
qed

lemma signature_char:
  assumes "digest32 H" and "serializable p" and "i < 43" and "\<not> is_b64url_char c"
  shows "c \<noteq> signature_segment (encode H p k) ! i"
proof -
  have "signature_segment (encode H p k) ! i \<in> set (signature_segment (encode H p k))"
    using assms(3) signature_segment_encode(1) [OF assms(1,2), of k] by simp
  then have "is_b64url_char (signature_segment (encode H p k) ! i)"
    using signature_segment_encode(2) [OF assms(1,2), of k] by (simp add: list_all_iff)
  then show ?thesis using assms(4) by auto
qed

lemma serializable_tampered:
  assumes "digest32 H" and "serializable p" and "i < 43"
    and "c \<noteq> signature_segment (encode H p k) ! i"
  shows "decode H now (replace_signature_char (encode H p k) i c) k =
           Inl (if c = CHR ''.'' then Invalid_token_format
                else if is_ascii c then Invalid_signature else Library_error)"
proof -
  obtain pj where pj: "json_dumps p = Some pj"
    using assms(2) json_dumps_serializable [of p] by auto
  show ?thesis by (rule encode_tampered [OF assms(1) pj assms(3,4)])
qed

lemma not_b64url_chars:
  "\<not> is_b64url_char (CHR ''.'')" "\<not> is_b64url_char (CHR ''!'')" "\<not> is_b64url_char (CHR 0xE9)"
  "is_ascii (CHR ''!'')" "\<not> is_ascii (CHR 0xE9)"
  by (simp_all add: is_b64url_char_def is_ascii_def byte_val_def Let_def)

text \<open>
  C6, as the code has it, with any hash function whose digests have 32 bytes. The
  signature segment of an issued token has 43 characters.
  Replacing one of them by a different character always makes \<^verbatim>\<open>decode\<close> fail, but the
  failure is \<^verbatim>\<open>Invalid signature\<close> only when the new character is an ASCII character other
  than the dot: with a dot the token has four segments and the failure is
  \<^verbatim>\<open>Invalid token format\<close>, and with a character outside ASCII \<^verbatim>\<open>hmac.compare_digest\<close>
  raises \<^verbatim>\<open>TypeError\<close>, which \<^verbatim>\<open>decode\<close> reports as a validation failure of its own.
\<close>

theorem tamper_evidence:
  assumes "digest32 sha256" and "serializable payload" and "i < 43"
    and "c \<noteq> signature_segment (encode sha256 payload secret) ! i"
  shows "length (signature_segment (encode sha256 payload secret)) = 43 \<and>
         decode sha256 now (replace_signature_char (encode sha256 payload secret) i c) secret =
           Inl (if c = CHR ''.'' then Invalid_token_format
                else if is_ascii c then Invalid_signature else Library_error)"
  using signature_segment_encode(1) [OF assms(1,2)] serializable_tampered [OF assms] by simp

theorem tamper_evidence_witness:
  "digest32 (\<lambda>m. take 32 (m @ replicate 32 (CHR 0x00))) \<and>
   serializable (PDict [(''sub'', PStr ''alice'')]) \<and> (7::nat) < 43 \<and>
   CHR ''!'' \<noteq> signature_segment (encode (\<lambda>m. take 32 (m @ replicate 32 (CHR 0x00)))
     (PDict [(''sub'', PStr ''alice'')]) ''top-secret'') ! 7 \<and>
   decode (\<lambda>m. take 32 (m @ replicate 32 (CHR 0x00))) 1700000000
     (replace_signature_char (encode (\<lambda>m. take 32 (m @ replicate 32 (CHR 0x00)))
        (PDict [(''sub'', PStr ''alice'')]) ''top-secret'') 7 (CHR ''!''))
     ''top-secret'' = Inl Invalid_signature"
proof -
  let ?H = "\<lambda>m. take 32 (m @ replicate 32 (CHR 0x00))"
  have s: "serializable (PDict [(''sub'', PStr ''alice'')])" by simp
  have c: "CHR ''!'' \<noteq> signature_segment (encode ?H (PDict [(''sub'', PStr ''alice'')]) ''top-secret'') ! 7"
    by (rule signature_char [OF digest32_sample s]) (simp_all add: not_b64url_chars)
  from tamper_evidence [OF digest32_sample s _ c, of 1700000000] s c digest32_sample
  show ?thesis by (simp add: not_b64url_chars)
qed

text \<open>
  Two replacements of the eighth signature character of an issued token after which
  \<^verbatim>\<open>decode\<close> fails, but not with \<^verbatim>\<open>Invalid signature\<close>: a dot and the letter e with an acute
  accent. The hash function here keeps the first 32 bytes of its input, padded with zero
  bytes; the outcome is the same with every hash function whose digests have 32 bytes.
\<close>

theorem tamper_other_failures:
  "CHR ''.'' \<noteq> signature_segment (encode (\<lambda>m. take 32 (m @ replicate 32 (CHR 0x00)))
     (PDict [(''sub'', PStr ''alice'')]) ''top-secret'') ! 7 \<and>
   decode (\<lambda>m. take 32 (m @ replicate 32 (CHR 0x00))) 1700000000
     (replace_signature_char (encode (\<lambda>m. take 32 (m @ replicate 32 (CHR 0x00)))
        (PDict [(''sub'', PStr ''alice'')]) ''top-secret'') 7 (CHR ''.''))
     ''top-secret'' = Inl Invalid_token_format \<and>
   CHR 0xE9 \<noteq> signature_segment (encode (\<lambda>m. take 32 (m @ replicate 32 (CHR 0x00)))
     (PDict [(''sub'', PStr ''alice'')]) ''top-secret'') ! 7 \<and>
   decode (\<lambda>m. take 32 (m @ replicate 32 (CHR 0x00))) 1700000000
     (replace_signature_char (encode (\<lambda>m. take 32 (m @ replicate 32 (CHR 0x00)))
        (PDict [(''sub'', PStr ''alice'')]) ''top-secret'') 7 (CHR 0xE9))
     ''top-secret'' = Inl Library_error"
proof -
  let ?H = "\<lambda>m. take 32 (m @ replicate 32 (CHR 0x00))"
  have s: "serializable (PDict [(''sub'', PStr ''alice'')])" by simp
  have c1: "CHR ''.'' \<noteq> signature_segment (encode ?H (PDict [(''sub'', PStr ''alice'')]) ''top-secret'') ! 7"
    by (rule signature_char [OF digest32_sample s]) (simp_all add: not_b64url_chars)
  have c2: "CHR 0xE9 \<noteq> signature_segment (encode ?H (PDict [(''sub'', PStr ''alice'')]) ''top-secret'') ! 7"
    by (rule signature_char [OF digest32_sample s]) (simp_all add: not_b64url_chars)
  from serializable_tampered [OF digest32_sample s _ c1, of 1700000000]
    serializable_tampered [OF digest32_sample s _ c2, of 1700000000] c1 c2
  show ?thesis by (simp add: not_b64url_chars)
qed

lemma verify_jwt_iff:
  "verify_jwt H key now token =
     (\<exists>kvs v. decode H now token key = Inr (PDict kvs) \<and> dict_get kvs ''sub'' = Some v \<and> v \<noteq> PNone)"
  by (auto simp: verify_jwt_def split: sum.splits pyval.splits option.splits)

lemma bearer_call_Bearer:
  "bearer_call H key now (Some (''Bearer'', token)) =
     (if verify_jwt H key now token then Inr token
      else Inl (HTTPException 403 ''Invalid token or expired token.''))"
  by (simp add: bearer_call_def HTTP_403_FORBIDDEN_def)

lemma bearer_call_Inr:
  assumes "bearer_call H key now (Some (scheme, token)) = Inr token'"
  shows "scheme = ''Bearer'' \<and> token' = token \<and> verify_jwt H key now token"
  using assms by (auto simp: bearer_call_def split: if_splits)

lemma decode_issued:
  assumes "json_dumps p = Some pj" and "json_loads pj = Some v"
  shows "decode H now (encode H p k) k = check_expiration now v"
  using decode_encode [OF assms(1), of H now k] assms(2) by simp

lemma check_expiration_no_exp:
  "dict_get kvs ''exp'' = None \<Longrightarrow> check_expiration now (PDict kvs) = Inr (PDict kvs)"
  by (simp add: check_expiration_def py_contains_def)

lemma check_expiration_exp:
  assumes "dict_get kvs ''exp'' = Some e" and "py_less_time e now = Some b"
  shows "check_expiration now (PDict kvs) = (if b then Inl Token_has_expired else Inr (PDict kvs))"
  using assms by (simp add: check_expiration_def py_contains_def py_getitem_def)

lemma check_expiration_Inr:
  assumes "check_expiration now payload = Inr v" and "payload = PDict kvs"
    and "dict_get kvs ''exp'' = Some e"
  shows "v = payload \<and> py_less_time e now = Some False"
  using assms
  by (auto simp: check_expiration_def py_contains_def py_getitem_def
      split: option.splits bool.splits if_splits)

lemma decode_Inr_check:
  assumes "decode H now token k = Inr v"
  shows "\<exists>payload. check_expiration now payload = Inr v"
  using assms
  by (auto simp: decode_def Let_def split: if_splits option.splits bool.splits)

lemma check_expiration_same:
  "check_expiration now payload = Inr v \<Longrightarrow> v = payload"
  by (auto simp: check_expiration_def split: option.splits bool.splits)

lemma sample_payloads:
  "json_dumps (PDict [(''user'', PStr ''alice'')])
     = Some (the (json_dumps (PDict [(''user'', PStr ''alice'')])))"
  "json_loads (the (json_dumps (PDict [(''user'', PStr ''alice'')])))
     = Some (PDict [(''user'', PStr ''alice'')])"
  "json_dumps (PDict [(''sub'', PStr ''alice'')])
     = Some (the (json_dumps (PDict [(''sub'', PStr ''alice'')])))"
  "json_loads (the (json_dumps (PDict [(''sub'', PStr ''alice'')])))
     = Some (PDict [(''sub'', PStr ''alice'')])"
  "json_dumps (PDict [(''sub'', PNone)]) = Some (the (json_dumps (PDict [(''sub'', PNone)])))"
  "json_loads (the (json_dumps (PDict [(''sub'', PNone)]))) = Some (PDict [(''sub'', PNone)])"
  by code_simp+

lemma sample_decodes:
  "decode H now (encode H (PDict [(''user'', PStr ''alice'')]) k) k = Inr (PDict [(''user'', PStr ''alice'')])"
  "decode H now (encode H (PDict [(''sub'', PStr ''alice'')]) k) k = Inr (PDict [(''sub'', PStr ''alice'')])"
  "decode H now (encode H (PDict [(''sub'', PNone)]) k) k = Inr (PDict [(''sub'', PNone)])"
  unfolding decode_issued [OF sample_payloads(1) sample_payloads(2)]
    decode_issued [OF sample_payloads(3) sample_payloads(4)]
    decode_issued [OF sample_payloads(5) sample_payloads(6)]
  by (simp_all add: check_expiration_no_exp)

text \<open>
  C9. The bearer check returns the token only when the scheme is \<^verbatim>\<open>Bearer\<close> and \<^verbatim>\<open>decode\<close>
  succeeds, so that signature and expiry checks have passed, with a dictionary that holds
  a \<^verbatim>\<open>sub\<close> entry other than \<^verbatim>\<open>None\<close>. A token that decodes successfully to anything else, a
  dictionary without \<^verbatim>\<open>sub\<close>, one with \<^verbatim>\<open>sub\<close> set to \<^verbatim>\<open>None\<close> or a value that is not a
  dictionary, makes \<^verbatim>\<open>verify_jwt\<close> return false and the request fail with status 403; one
  that decodes to a dictionary with a \<^verbatim>\<open>sub\<close> other than \<^verbatim>\<open>None\<close> is admitted.
\<close>

theorem bearer_requires_sub:
  "(bearer_call sha256 key now (Some (scheme, token)) = Inr token' \<longrightarrow>
      scheme = ''Bearer'' \<and> token' = token \<and>
      (\<exists>kvs v. decode sha256 now token key = Inr (PDict kvs) \<and>
               dict_get kvs ''sub'' = Some v \<and> v \<noteq> PNone)) \<and>
   (decode sha256 now token key = Inr payload \<and>
    (\<forall>kvs. payload = PDict kvs \<longrightarrow>
       dict_get kvs ''sub'' = None \<or> dict_get kvs ''sub'' = Some PNone) \<longrightarrow>
      \<not> verify_jwt sha256 key now token \<and>
      bearer_call sha256 key now (Some (''Bearer'', token)) =
        Inl (HTTPException 403 ''Invalid token or expired token.'')) \<and>
   (decode sha256 now token key = Inr (PDict kvs) \<and> dict_get kvs ''sub'' = Some v \<and> v \<noteq> PNone \<longrightarrow>
      verify_jwt sha256 key now token \<and>
      bearer_call sha256 key now (Some (''Bearer'', token)) = Inr token)"
proof (intro conjI impI)
  assume "bearer_call sha256 key now (Some (scheme, token)) = Inr token'"
  from bearer_call_Inr [OF this]
  show "scheme = ''Bearer''" "token' = token"
    "\<exists>kvs v. decode sha256 now token key = Inr (PDict kvs) \<and> dict_get kvs ''sub'' = Some v \<and> v \<noteq> PNone"
    by (simp_all add: verify_jwt_iff)
next
  assume a: "decode sha256 now token key = Inr payload \<and>
    (\<forall>kvs. payload = PDict kvs \<longrightarrow> dict_get kvs ''sub'' = None \<or> dict_get kvs ''sub'' = Some PNone)"
  then show n: "\<not> verify_jwt sha256 key now token" by (auto simp: verify_jwt_iff)
  then show "bearer_call sha256 key now (Some (''Bearer'', token)) =
        Inl (HTTPException 403 ''Invalid token or expired token.'')"
    by (simp add: bearer_call_Bearer)
next
  assume a: "decode sha256 now token key = Inr (PDict kvs) \<and> dict_get kvs ''sub'' = Some v \<and> v \<noteq> PNone"
  then show v: "verify_jwt sha256 key now token" by (auto simp: verify_jwt_iff)
  then show "bearer_call sha256 key now (Some (''Bearer'', token)) = Inr token"
    by (simp add: bearer_call_Bearer)
qed

theorem bearer_requires_sub_witness:
  "decode (\<lambda>m. take 32 (m @ replicate 32 (CHR 0x00))) 1700000000
     (encode (\<lambda>m. take 32 (m @ replicate 32 (CHR 0x00))) (PDict [(''user'', PStr ''alice'')])
        default_SECRET_KEY) default_SECRET_KEY = Inr (PDict [(''user'', PStr ''alice'')]) \<and>
   \<not> verify_jwt (\<lambda>m. take 32 (m @ replicate 32 (CHR 0x00))) default_SECRET_KEY 1700000000
     (encode (\<lambda>m. take 32 (m @ replicate 32 (CHR 0x00))) (PDict [(''user'', PStr ''alice'')])
        default_SECRET_KEY) \<and>
   bearer_call (\<lambda>m. take 32 (m @ replicate 32 (CHR 0x00))) default_SECRET_KEY 1700000000
     (Some (''Bearer'', encode (\<lambda>m. take 32 (m @ replicate 32 (CHR 0x00)))
        (PDict [(''user'', PStr ''alice'')]) default_SECRET_KEY))
     = Inl (HTTPException 403 ''Invalid token or expired token.'') \<and>
   bearer_call (\<lambda>m. take 32 (m @ replicate 32 (CHR 0x00))) default_SECRET_KEY 1700000000
     (Some (''Bearer'', encode (\<lambda>m. take 32 (m @ replicate 32 (CHR 0x00)))
        (PDict [(''sub'', PNone)]) default_SECRET_KEY))
     = Inl (HTTPException 403 ''Invalid token or expired token.'') \<and>
   bearer_call (\<lambda>m. take 32 (m @ replicate 32 (CHR 0x00))) default_SECRET_KEY 1700000000
     (Some (''Bearer'', encode (\<lambda>m. take 32 (m @ replicate 32 (CHR 0x00)))
        (PDict [(''sub'', PStr ''alice'')]) default_SECRET_KEY))
     = Inr (encode (\<lambda>m. take 32 (m @ replicate 32 (CHR 0x00)))
        (PDict [(''sub'', PStr ''alice'')]) default_SECRET_KEY)"
proof -
  let ?H = "\<lambda>m. take 32 (m @ replicate 32 (CHR 0x00))"
  let ?k = default_SECRET_KEY
  note d = sample_decodes [of ?H 1700000000 ?k]
  from bearer_requires_sub [of ?H ?k 1700000000 _ "encode ?H (PDict [(''user'', PStr ''alice'')]) ?k" _
      "PDict [(''user'', PStr ''alice'')]", THEN conjunct2, THEN conjunct1]
    bearer_requires_sub [of ?H ?k 1700000000 _ "encode ?H (PDict [(''sub'', PNone)]) ?k" _
      "PDict [(''sub'', PNone)]", THEN conjunct2, THEN conjunct1]
    bearer_requires_sub [of ?H ?k 1700000000 _ "encode ?H (PDict [(''sub'', PStr ''alice'')]) ?k" _ _
      "[(''sub'', PStr ''alice'')]" "PStr ''alice''", THEN conjunct2, THEN conjunct2] d
  show ?thesis by simp
qed

end
